theory Spec2Isabelle
  imports Main "HOL-Library.AList"
begin

section \<open>The watcher bridge of \<^verbatim>\<open>src/src/xapi.js\<close>\<close>

text \<open>
  The constructor of \<^verbatim>\<open>Xapi\<close> keeps two tables, \<^verbatim>\<open>_objectWatchers\<close> and
  \<^verbatim>\<open>_taskWatchers\<close>, from a key to a watcher \<^verbatim>\<open>{promise, resolve, reject}\<close>.
  A promise is an entry of a store indexed by handles; the \<^verbatim>\<open>resolve\<close> and
  \<^verbatim>\<open>reject\<close> capabilities of a watcher act on the handle of its promise, so a watcher
  is represented by that handle.
\<close>

type_synonym key = string
type_synonym handle = nat

text \<open>A notified object: \<^verbatim>\<open>$id\<close>, \<^verbatim>\<open>$ref\<close>, and the task fields read by the handler.\<close>

record xobject =
  obj_id :: key
  obj_ref :: key
  status :: string
  result :: string
  error_info :: "string list"

record js_error =
  message :: string
  code :: "string option"
  params :: "string list"

datatype resolution = RObject xobject | RResult string

datatype settled = Pending | Resolved resolution | Rejected js_error

record bridge =
  objectWatchers :: "key \<rightharpoonup> handle"
  taskWatchers :: "key \<rightharpoonup> handle"
  promises :: "handle \<Rightarrow> settled"
  fresh :: handle

definition bridge0 :: bridge where
  "bridge0 = \<lparr>objectWatchers = Map.empty, taskWatchers = Map.empty,
              promises = (\<lambda>_. Pending), fresh = 0\<rparr>"

text \<open>
  \<^verbatim>\<open>wrapError\<close>: \<^verbatim>\<open>e = new Error(error[0]); e.code = error[0]; e.params = error.slice(1)\<close>.
  On an empty tuple \<^verbatim>\<open>error[0]\<close> is \<^verbatim>\<open>undefined\<close>: the message is empty and the code absent.
\<close>

definition wrapError :: "string list \<Rightarrow> js_error" where
  "wrapError error =
     (case error of
        [] \<Rightarrow> \<lparr>message = [], code = None, params = []\<rparr>
      | e0 # rest \<Rightarrow> \<lparr>message = e0, code = Some e0, params = rest\<rparr>)"

text \<open>Settling a promise that is already settled has no effect.\<close>

definition resolve :: "handle \<Rightarrow> resolution \<Rightarrow> bridge \<Rightarrow> bridge" where
  "resolve h v s =
     (if promises s h = Pending then s\<lparr>promises := (promises s)(h := Resolved v)\<rparr> else s)"

definition reject :: "handle \<Rightarrow> js_error \<Rightarrow> bridge \<Rightarrow> bridge" where
  "reject h e s =
     (if promises s h = Pending then s\<lparr>promises := (promises s)(h := Rejected e)\<rparr> else s)"

text \<open>The body of the \<^verbatim>\<open>forEach\<close> callback of \<^verbatim>\<open>onAddOrUpdate\<close>, for one object.\<close>

definition watchedObject :: "key \<Rightarrow> xobject \<Rightarrow> bridge \<Rightarrow> bridge" where
  "watchedObject k object s =
     (case objectWatchers s k of
        Some w \<Rightarrow> (resolve w (RObject object) s)\<lparr>objectWatchers := (objectWatchers s)(k := None)\<rparr>
      | None \<Rightarrow> s)"

definition watchedTask :: "xobject \<Rightarrow> bridge \<Rightarrow> bridge" where
  "watchedTask object s =
     (case taskWatchers s (obj_ref object) of
        None \<Rightarrow> s
      | Some w \<Rightarrow>
          if status object = ''success''
          then (resolve w (RResult (result object)) s)
                 \<lparr>taskWatchers := (taskWatchers s)(obj_ref object := None)\<rparr>
          else if status object = ''failure''
          then (reject w (wrapError (error_info object)) s)
                 \<lparr>taskWatchers := (taskWatchers s)(obj_ref object := None)\<rparr>
          else s)"

definition onObject :: "xobject \<Rightarrow> bridge \<Rightarrow> bridge" where
  "onObject object s =
     watchedTask object
       (watchedObject (obj_ref object) object (watchedObject (obj_id object) object s))"

definition onAddOrUpdate :: "xobject list \<Rightarrow> bridge \<Rightarrow> bridge" where
  "onAddOrUpdate objects s = fold onObject objects s"

text \<open>\<^verbatim>\<open>_waitObject\<close>: reuse the watcher of the key, or register a new one.\<close>

definition waitObject :: "key \<Rightarrow> bridge \<Rightarrow> handle \<times> bridge" where
  "waitObject idOrUuidOrRef s =
     (case objectWatchers s idOrUuidOrRef of
        Some watcher \<Rightarrow> (watcher, s)
      | None \<Rightarrow>
          (fresh s,
           s\<lparr>objectWatchers := (objectWatchers s)(idOrUuidOrRef \<mapsto> fresh s),
             promises := (promises s)(fresh s := Pending),
             fresh := Suc (fresh s)\<rparr>))"

text \<open>
  \<^verbatim>\<open>_watchTask\<close> takes a reference or a task object; an object with a truthy
  \<^verbatim>\<open>$ref\<close> is unpacked, any other object is used as a property key as it is, that is
  through its string conversion.
\<close>

datatype task_arg = TRef key | TObject xobject

definition task_key :: "task_arg \<Rightarrow> key" where
  "task_key a =
     (case a of
        TRef r \<Rightarrow> r
      | TObject t \<Rightarrow> if obj_ref t \<noteq> [] then obj_ref t else ''[object Object]'')"

definition watchTask :: "task_arg \<Rightarrow> bridge \<Rightarrow> handle \<times> bridge" where
  "watchTask a s =
     (let ref = task_key a in
      case taskWatchers s ref of
        Some watcher \<Rightarrow> (watcher, s)
      | None \<Rightarrow>
          (fresh s,
           s\<lparr>taskWatchers := (taskWatchers s)(ref \<mapsto> fresh s),
             promises := (promises s)(fresh s := Pending),
             fresh := Suc (fresh s)\<rparr>))"

text \<open>Everything that can happen to the bridge: a wait, a task watch, a notification batch.\<close>

datatype op = WaitObject key | WatchTask task_arg | Notify "xobject list"

fun step :: "op \<Rightarrow> bridge \<Rightarrow> bridge" where
  "step (WaitObject k) s = snd (waitObject k s)"
| "step (WatchTask a) s = snd (watchTask a s)"
| "step (Notify objects) s = onAddOrUpdate objects s"

definition run :: "op list \<Rightarrow> bridge \<Rightarrow> bridge" where
  "run ops s = fold step ops s"

section \<open>Storage maintenance and disk import of \<^verbatim>\<open>src/@xen-orchestra/xapi/sr.js\<close>\<close>

text \<open>
  The methods of \<^verbatim>\<open>Sr\<close> talk to the pool through \<^verbatim>\<open>this.call\<close>, \<^verbatim>\<open>this.callAsync\<close>,
  \<^verbatim>\<open>this.getField\<close>, \<^verbatim>\<open>this.setFieldEntry\<close>, \<^verbatim>\<open>this.VDI_create\<close> and
  \<^verbatim>\<open>this.VDI_importContent\<close>, and read a footer with \<^verbatim>\<open>peekFooterFromStream\<close>. What the
  pool answers is not decided by this file: the remote is a parameter, a function from a
  call and the state of the world to an outcome and the next state of the world. Every call
  made is recorded, with its outcome, in a trace.
\<close>

type_synonym ref = string

text \<open>
  The local \<^verbatim>\<open>state\<close> object of \<^verbatim>\<open>enableMaintenanceMode\<close>. It starts as
  \<^verbatim>\<open>{ timestamp }\<close>; \<^verbatim>\<open>shutdownVms\<close> and \<^verbatim>\<open>unpluggedPbds\<close> are assigned later, so both
  are optional. The JSON text stored in \<^verbatim>\<open>other_config\<close> is represented by the record
  it encodes.
\<close>

record mstate =
  timestamp :: nat
  shutdownVms :: "(string \<times> bool) list option"
  unpluggedPbds :: "string list option"

record vstream =
  stream_length :: "nat option"
  stream_bytes :: "nat list"

text \<open>The argument of \<^verbatim>\<open>VDI_create\<close>: \<^verbatim>\<open>{ ...vdiCreateOpts, name_label, SR: ref, virtual_size }\<close>.\<close>

record vdi_params =
  name_label :: string
  SR :: ref
  virtual_size :: nat
  vdiCreateOpts :: "(string \<times> string) list"

datatype arg = AStr string | ABool bool | AJson mstate

datatype call =
    Call string "arg list"
  | CallAsync string "arg list"
  | GetField string ref string
  | SetFieldEntry string ref string string arg
  | PeekFooter vstream
  | VDI_create vdi_params
  | VDI_importContent ref vstream string

text \<open>
  A reply of the remote, read through the field that fits the type of the call: a reference,
  uuid or power state (\<open>str\<close>), a list of references (\<open>strs\<close>), a boolean field
  (\<open>flag\<close>), the \<^verbatim>\<open>other_config\<close> map (\<open>config\<close>), the footer's \<^verbatim>\<open>currentSize\<close>.
\<close>

record reply =
  str :: string
  strs :: "string list"
  flag :: bool
  config :: "(string \<times> mstate) list"
  currentSize :: nat

datatype error =
    Conflict
  | Failure string
  | IncorrectState "string list" "string list" string
  | AggregateError "error list"
  | AssertionError
  | TypeError
  | SyntaxError

type_synonym outcome = "error + reply"
type_synonym event = "call \<times> outcome"
type_synonym 'w remote = "call \<Rightarrow> 'w \<Rightarrow> outcome \<times> 'w"

text \<open>
  The state of one request: the world, the trace, the stack of \<^verbatim>\<open>$defer\<close>, and the locals
  that the callbacks of the request share (\<^verbatim>\<open>runningVms\<close>, \<^verbatim>\<open>state\<close>, \<^verbatim>\<open>errors\<close>).
\<close>

record 'w st =
  world :: 'w
  trace :: "event list"
  deferred :: "call list"
  runningVms :: "(ref \<times> bool) list"
  state :: mstate
  errors :: "error list"

type_synonym ('w, 'a) prog = "'w st \<Rightarrow> (error + 'a) \<times> 'w st"

definition start :: "'w \<Rightarrow> 'w st" where
  "start w = \<lparr>world = w, trace = [], deferred = [], runningVms = [],
              state = \<lparr>timestamp = 0, shutdownVms = None, unpluggedPbds = None\<rparr>, errors = []\<rparr>"

definition await :: "('w, 'a) prog \<Rightarrow> ('a \<Rightarrow> ('w, 'b) prog) \<Rightarrow> ('w, 'b) prog" where
  "await m f s = (case m s of (Inl e, s') \<Rightarrow> (Inl e, s') | (Inr a, s') \<Rightarrow> f a s')"

definition return :: "'a \<Rightarrow> ('w, 'a) prog" where
  "return a s = (Inr a, s)"

definition throw :: "error \<Rightarrow> ('w, 'a) prog" where
  "throw e s = (Inl e, s)"

definition rpc :: "'w remote \<Rightarrow> call \<Rightarrow> ('w, reply) prog" where
  "rpc R c s = (case R c (world s) of (r, w') \<Rightarrow> (r, s\<lparr>world := w', trace := trace s @ [(c, r)]\<rparr>))"

text \<open>
  Modelled from the spec: \<^verbatim>\<open>asyncMap\<close> and \<^verbatim>\<open>asyncMapSettled\<close> of
  \<^verbatim>\<open>@xen-orchestra/async-map\<close> are not among the source files. The callbacks run one
  after the other, in the order of the list, which is one of the interleavings of the
  concurrent callbacks. \<^verbatim>\<open>asyncMap\<close> fails with the first failure; the callbacks that
  would still be in flight then are left out (in \<^verbatim>\<open>sr.js\<close> they only read fields, or
  never fail). \<^verbatim>\<open>asyncMapSettled\<close> lets every callback settle and then fails with the
  first failure (best-effort steps continue past individual failures).
\<close>

fun asyncMap :: "('a \<Rightarrow> ('w, 'b) prog) \<Rightarrow> 'a list \<Rightarrow> ('w, 'b list) prog" where
  "asyncMap f [] s = (Inr [], s)"
| "asyncMap f (x # xs) s =
     (case f x s of
        (Inl e, s') \<Rightarrow> (Inl e, s')
      | (Inr y, s') \<Rightarrow>
          (case asyncMap f xs s' of
             (Inl e, s'') \<Rightarrow> (Inl e, s'')
           | (Inr ys, s'') \<Rightarrow> (Inr (y # ys), s'')))"

fun asyncMapSettled :: "('a \<Rightarrow> ('w, 'b) prog) \<Rightarrow> 'a list \<Rightarrow> ('w, 'b list) prog" where
  "asyncMapSettled f [] s = (Inr [], s)"
| "asyncMapSettled f (x # xs) s =
     (case f x s of
        (r, s') \<Rightarrow>
          (case asyncMapSettled f xs s' of
             (rs, s'') \<Rightarrow>
               (case r of
                  Inl e \<Rightarrow> (Inl e, s'')
                | Inr y \<Rightarrow> (case rs of Inl e \<Rightarrow> (Inl e, s'') | Inr ys \<Rightarrow> (Inr (y # ys), s'')))))"

text \<open>
  Modelled from the spec: the \<^verbatim>\<open>defer\<close> decorator of \<^verbatim>\<open>golike-defer\<close> is not among the
  source files. \<^verbatim>\<open>$defer.onFailure\<close> pushes an action on the stack of the scope. If the body
  fails, every recorded action runs in strict reverse order, a failing action does not stop
  the remaining ones, and the error of the body is rethrown; if the body succeeds the stack
  is discarded.
\<close>

definition onFailure :: "call \<Rightarrow> ('w, unit) prog" where
  "onFailure c s = (Inr (), s\<lparr>deferred := deferred s @ [c]\<rparr>)"

definition runDeferred :: "'w remote \<Rightarrow> 'w st \<Rightarrow> 'w st" where
  "runDeferred R s = fold (\<lambda>c s'. snd (rpc R c s')) (rev (deferred s)) s"

definition defer_decorator :: "'w remote \<Rightarrow> ('w, 'a) prog \<Rightarrow> ('w, 'a) prog" where
  "defer_decorator R body s =
     (case body s of
        (Inr v, s') \<Rightarrow> (Inr v, s')
      | (Inl e, s') \<Rightarrow> (Inl e, runDeferred R s'))"

subsection \<open>\<^verbatim>\<open>enableMaintenanceMode\<close>\<close>

definition OC_MAINTENANCE :: string where
  "OC_MAINTENANCE = ''xo:maintenanceState''"

text \<open>\<^verbatim>\<open>handleVbd\<close>; \<^verbatim>\<open>runningVms\<close> is a \<^verbatim>\<open>Map\<close>, kept in insertion order.\<close>

definition handleVbd :: "'w remote \<Rightarrow> ref \<Rightarrow> ('w, unit) prog" where
  "handleVbd R ref =
     await (rpc R (GetField ''VBD'' ref ''VM'')) (\<lambda>vm s.
       let vmRef = str vm in
       if vmRef \<in> fst ` set (runningVms s) then return () s
       else await (rpc R (GetField ''VM'' vmRef ''power_state'')) (\<lambda>ps s'.
              let power_state = str ps; isPaused = (power_state = ''Paused'') in
              if isPaused \<or> power_state = ''Running''
              then return () (s'\<lparr>runningVms := AList.update vmRef isPaused (runningVms s')\<rparr>)
              else return () s') s)"

definition discoverVms :: "'w remote \<Rightarrow> ref \<Rightarrow> ('w, unit) prog" where
  "discoverVms R ref =
     await (rpc R (GetField ''SR'' ref ''VDIs'')) (\<lambda>vdis.
     await (asyncMap (\<lambda>ref'.
              await (rpc R (GetField ''VDI'' ref' ''VBDs'')) (\<lambda>vbds.
              await (asyncMap (handleVbd R) (strs vbds)) (\<lambda>_. return ())))
            (strs vdis)) (\<lambda>_.
     return ()))"

definition getRunningVmUuids :: "'w remote \<Rightarrow> ('w, string list) prog" where
  "getRunningVmUuids R s =
     asyncMap (\<lambda>ref'. await (rpc R (GetField ''VM'' ref' ''uuid'')) (\<lambda>u. return (str u)))
       (map fst (runningVms s)) s"

text \<open>The loop over \<^verbatim>\<open>runningVmUuids\<close> with \<^verbatim>\<open>set = new Set(vmsToShutdown)\<close>.\<close>

fun checkLoop :: "string list \<Rightarrow> string list \<Rightarrow> string list \<Rightarrow> error + unit" where
  "checkLoop vmsToShutdown runningVmUuids [] = Inr ()"
| "checkLoop vmsToShutdown runningVmUuids (vmUuid # rest) =
     (if vmUuid \<in> set vmsToShutdown then checkLoop vmsToShutdown runningVmUuids rest
      else Inl (IncorrectState vmsToShutdown runningVmUuids ''vmsToShutdown''))"

definition checkVmsToShutdown :: "string list \<Rightarrow> string list \<Rightarrow> ('w, unit) prog" where
  "checkVmsToShutdown vmsToShutdown runningVmUuids s =
     (checkLoop vmsToShutdown runningVmUuids runningVmUuids, s)"

text \<open>The callback of the first \<^verbatim>\<open>asyncMapSettled\<close> (the call of \<^verbatim>\<open>warn\<close> is left out).\<close>

definition shutdownVm :: "'w remote \<Rightarrow> ref \<times> bool \<Rightarrow> ('w, unit) prog" where
  "shutdownVm R = (\<lambda>(ref, isPaused).
     await (rpc R (GetField ''VM'' ref ''uuid'')) (\<lambda>u.
     await (\<lambda>s. case shutdownVms (state s) of
                   None \<Rightarrow> throw TypeError s
                 | Some m \<Rightarrow>
                     return () (s\<lparr>state := (state s)
                        \<lparr>shutdownVms := Some (AList.update (str u) isPaused m)\<rparr>\<rparr>)) (\<lambda>_.
     await (\<lambda>s. case rpc R (CallAsync ''VM.clean_shutdown'' [AStr ref]) s of
                   (Inl error, s') \<Rightarrow> rpc R (CallAsync ''VM.hard_shutdown'' [AStr ref]) s'
                 | (Inr v, s') \<Rightarrow> (Inr v, s')) (\<lambda>_.
     onFailure (CallAsync ''VM.start'' [AStr ref, ABool isPaused, ABool True])))))"

text \<open>The callback of the second \<^verbatim>\<open>asyncMapSettled\<close>.\<close>

definition unplugPbd :: "'w remote \<Rightarrow> ref \<Rightarrow> ('w, unit) prog" where
  "unplugPbd R ref =
     await (rpc R (GetField ''PBD'' ref ''currently_attached'')) (\<lambda>attached.
       if flag attached
       then await (rpc R (GetField ''PBD'' ref ''uuid'')) (\<lambda>u.
            await (\<lambda>s. case unpluggedPbds (state s) of
                          None \<Rightarrow> throw TypeError s
                        | Some l \<Rightarrow>
                            return () (s\<lparr>state := (state s)
                               \<lparr>unpluggedPbds := Some (l @ [str u])\<rparr>\<rparr>)) (\<lambda>_.
            await (rpc R (CallAsync ''PBD.unplug'' [AStr ref])) (\<lambda>_.
            onFailure (CallAsync ''PBD.plug'' [AStr ref]))))
       else return ())"

text \<open>The body, in the order of the source: lines 54 to 59, 61 to 89, 91 to 104, 106 to 117.\<close>

definition writePlaceholder :: "'w remote \<Rightarrow> nat \<Rightarrow> ref \<Rightarrow> ('w, unit) prog" where
  "writePlaceholder R now ref =
     await (\<lambda>s. return ()
              (s\<lparr>state := \<lparr>timestamp = now, shutdownVms = None, unpluggedPbds = None\<rparr>\<rparr>)) (\<lambda>_.
     await (\<lambda>s. rpc R (Call ''SR.add_to_other_config''
                          [AStr ref, AStr OC_MAINTENANCE, AJson (state s)]) s) (\<lambda>_.
     onFailure (Call ''SR.remove_from_other_config'' [AStr ref, AStr OC_MAINTENANCE])))"

definition discovery :: "'w remote \<Rightarrow> nat \<Rightarrow> ref \<Rightarrow> ('w, string list) prog" where
  "discovery R now ref =
     await (writePlaceholder R now ref) (\<lambda>_.
     await (discoverVms R ref) (\<lambda>_.
     getRunningVmUuids R))"

definition shutdownRunningVms :: "'w remote \<Rightarrow> ('w, unit) prog" where
  "shutdownRunningVms R =
     await (\<lambda>s. return () (s\<lparr>state := (state s)\<lparr>shutdownVms := Some []\<rparr>\<rparr>)) (\<lambda>_.
     await (\<lambda>s. asyncMapSettled (shutdownVm R) (runningVms s) s) (\<lambda>_.
     return ()))"

definition unplugPbds :: "'w remote \<Rightarrow> ref \<Rightarrow> ('w, unit) prog" where
  "unplugPbds R ref =
     await (\<lambda>s. return () (s\<lparr>state := (state s)\<lparr>unpluggedPbds := Some []\<rparr>\<rparr>)) (\<lambda>_.
     await (rpc R (GetField ''SR'' ref ''PBDs'')) (\<lambda>pbds.
     await (asyncMapSettled (unplugPbd R) (strs pbds)) (\<lambda>_.
     return ())))"

definition persistState :: "'w remote \<Rightarrow> ref \<Rightarrow> ('w, unit) prog" where
  "persistState R ref =
     await (\<lambda>s. rpc R (SetFieldEntry ''SR'' ref ''other_config'' OC_MAINTENANCE
                          (AJson (state s))) s) (\<lambda>_.
     return ())"

definition disrupt :: "'w remote \<Rightarrow> ref \<Rightarrow> ('w, unit) prog" where
  "disrupt R ref =
     await (shutdownRunningVms R) (\<lambda>_.
     await (unplugPbds R ref) (\<lambda>_.
     persistState R ref))"

definition enableMaintenanceMode_body ::
  "'w remote \<Rightarrow> nat \<Rightarrow> ref \<Rightarrow> string list \<Rightarrow> ('w, unit) prog" where
  "enableMaintenanceMode_body R now ref vmsToShutdown =
     await (discovery R now ref) (\<lambda>runningVmUuids.
     await (checkVmsToShutdown vmsToShutdown runningVmUuids) (\<lambda>_.
     disrupt R ref))"

text \<open>\<^verbatim>\<open>decorateClass(Sr, { enableMaintenanceMode: defer, ... })\<close>; \<open>now\<close> is \<^verbatim>\<open>Date.now()\<close>.\<close>

definition enableMaintenanceMode ::
  "'w remote \<Rightarrow> nat \<Rightarrow> ref \<Rightarrow> string list \<Rightarrow> 'w \<Rightarrow> (error + unit) \<times> 'w st" where
  "enableMaintenanceMode R now ref vmsToShutdown w =
     defer_decorator R (enableMaintenanceMode_body R now ref vmsToShutdown) (start w)"

subsection \<open>\<^verbatim>\<open>disableMaintenanceMode\<close>\<close>

definition plugPbd :: "'w remote \<Rightarrow> string \<Rightarrow> ('w, unit) prog" where
  "plugPbd R uuid s =
     (case await (rpc R (Call ''PBD.get_by_uuid'' [AStr uuid]))
             (\<lambda>r. rpc R (CallAsync ''PBD.plug'' [AStr (str r)])) s of
        (Inl error, s') \<Rightarrow> (Inr (), s'\<lparr>errors := errors s' @ [error]\<rparr>)
      | (Inr _, s') \<Rightarrow> (Inr (), s'))"

definition startVm :: "'w remote \<Rightarrow> string \<times> bool \<Rightarrow> ('w, unit) prog" where
  "startVm R = (\<lambda>(uuid, isPaused) s.
     case await (rpc R (Call ''VM.get_by_uuid'' [AStr uuid]))
            (\<lambda>r. rpc R (CallAsync ''VM.start'' [AStr (str r), ABool isPaused, ABool True])) s of
       (Inl error, s') \<Rightarrow> (Inr (), s'\<lparr>errors := errors s' @ [error]\<rparr>)
     | (Inr _, s') \<Rightarrow> (Inr (), s'))"

text \<open>
  \<^verbatim>\<open>JSON.parse\<close> of a missing entry throws a \<^verbatim>\<open>SyntaxError\<close>; iterating a missing
  \<^verbatim>\<open>unpluggedPbds\<close> and \<^verbatim>\<open>Object.entries\<close> of a missing \<^verbatim>\<open>shutdownVms\<close> throw a
  \<^verbatim>\<open>TypeError\<close>.
\<close>

definition disableMaintenanceMode_body :: "'w remote \<Rightarrow> ref \<Rightarrow> ('w, unit) prog" where
  "disableMaintenanceMode_body R ref =
     await (rpc R (GetField ''SR'' ref ''other_config'')) (\<lambda>oc.
     await (case map_of (config oc) OC_MAINTENANCE of
              None \<Rightarrow> throw SyntaxError
            | Some parsed \<Rightarrow> return parsed) (\<lambda>parsed.
     await (rpc R (Call ''SR.remove_from_other_config'' [AStr ref, AStr OC_MAINTENANCE])) (\<lambda>_.
     await (case unpluggedPbds parsed of
              None \<Rightarrow> throw TypeError
            | Some uuids \<Rightarrow> asyncMap (plugPbd R) uuids) (\<lambda>_.
     await (case shutdownVms parsed of
              None \<Rightarrow> throw TypeError
            | Some entries \<Rightarrow> asyncMap (startVm R) entries) (\<lambda>_.
     (\<lambda>s. if errors s \<noteq> [] then throw (AggregateError (errors s)) s else return () s))))))"

definition disableMaintenanceMode :: "'w remote \<Rightarrow> ref \<Rightarrow> 'w \<Rightarrow> (error + unit) \<times> 'w st" where
  "disableMaintenanceMode R ref w = disableMaintenanceMode_body R ref (start w)"

subsection \<open>\<^verbatim>\<open>importVdi\<close>\<close>




section \<open>Properties\<close>

subsection \<open>Of the watcher bridge\<close>

definition tables_ok :: "bridge \<Rightarrow> bool" where
  "tables_ok s \<longleftrightarrow>
     (\<forall>k h. objectWatchers s k = Some h \<longrightarrow>
        h < fresh s \<and> promises s h = Pending \<and> (\<forall>k'. taskWatchers s k' \<noteq> Some h) \<and>
        (\<forall>k'. objectWatchers s k' = Some h \<longrightarrow> k' = k)) \<and>
     (\<forall>k h. taskWatchers s k = Some h \<longrightarrow>
        h < fresh s \<and> promises s h = Pending \<and>
        (\<forall>k'. taskWatchers s k' = Some h \<longrightarrow> k' = k))"


definition unrejectable :: "handle \<Rightarrow> bridge \<Rightarrow> bool" where
  "unrejectable h s \<longleftrightarrow>
     h < fresh s \<and> (\<forall>k. taskWatchers s k \<noteq> Some h) \<and> (\<forall>e. promises s h \<noteq> Rejected e)"

subsection \<open>Of the storage workflows\<close>

text \<open>
  A triple speaks about every run of a program from a state that satisfies \<open>P\<close>: whatever
  it returns, a value or an error, the result and the final state satisfy \<open>Q\<close>. A
  program preserves an invariant when the invariant holds after every run that started with
  it, failed runs included.
\<close>

definition triple ::
  "('w st \<Rightarrow> bool) \<Rightarrow> ('w, 'a) prog \<Rightarrow> ((error + 'a) \<Rightarrow> 'w st \<Rightarrow> bool) \<Rightarrow> bool" where
  "triple P m Q \<longleftrightarrow> (\<forall>s r s'. P s \<longrightarrow> m s = (r, s') \<longrightarrow> Q r s')"

definition preserves :: "('w st \<Rightarrow> bool) \<Rightarrow> ('w, 'a) prog \<Rightarrow> bool" where
  "preserves I m \<longleftrightarrow> triple I m (\<lambda>_. I)"

text \<open>
  \<^verbatim>\<open>sr.js\<close> shuts down, starts, plugs and unplugs through \<^verbatim>\<open>callAsync\<close> only. A state
  is quiet when no such call has been made and none is on the stack of \<^verbatim>\<open>$defer\<close>.
\<close>

definition async :: "call \<Rightarrow> bool" where
  "async c = (case c of CallAsync _ _ \<Rightarrow> True | _ \<Rightarrow> False)"

definition quiet :: "'w st \<Rightarrow> bool" where
  "quiet s \<longleftrightarrow> (\<forall>e\<in>set (trace s). \<not> async (fst e)) \<and> (\<forall>c\<in>set (deferred s). \<not> async c)"

text \<open>
  What a trace tells about the disruptive steps: the VMs a clean or hard shutdown succeeded
  for, the PBDs an unplug succeeded for, each in the order of completion, and the pause flag
  of a VM, that is whether a read of its \<^verbatim>\<open>power_state\<close> answered \<^verbatim>\<open>Paused\<close>.
\<close>

definition shut_of :: "event \<Rightarrow> ref list" where
  "shut_of e =
     (case e of
        (CallAsync n [AStr r], Inr _) \<Rightarrow>
          if n = ''VM.clean_shutdown'' \<or> n = ''VM.hard_shutdown'' then [r] else []
      | _ \<Rightarrow> [])"

definition unplugged_of :: "event \<Rightarrow> ref list" where
  "unplugged_of e =
     (case e of
        (CallAsync n [AStr r], Inr _) \<Rightarrow> if n = ''PBD.unplug'' then [r] else []
      | _ \<Rightarrow> [])"

definition paused_read :: "ref \<Rightarrow> event \<Rightarrow> bool" where
  "paused_read r e =
     (case e of
        (GetField t v f, Inr rp) \<Rightarrow>
          t = ''VM'' \<and> v = r \<and> f = ''power_state'' \<and> str rp = ''Paused''
      | _ \<Rightarrow> False)"

definition shut :: "event list \<Rightarrow> ref list" where
  "shut tr = concat (map shut_of tr)"

definition unplugged :: "event list \<Rightarrow> ref list" where
  "unplugged tr = concat (map unplugged_of tr)"

definition wasPaused :: "event list \<Rightarrow> ref \<Rightarrow> bool" where
  "wasPaused tr r = list_ex (paused_read r) tr"

text \<open>
  The undo calls that a trace of the body calls for: plug every unplugged PBD, latest first,
  then start every VM that was shut down, latest first, with its pause flag, then remove the
  maintenance key.
\<close>

definition compensation :: "ref \<Rightarrow> event list \<Rightarrow> call list" where
  "compensation ref tr =
     map (\<lambda>r. CallAsync ''PBD.plug'' [AStr r]) (rev (unplugged tr)) @
     map (\<lambda>r. CallAsync ''VM.start'' [AStr r, ABool (wasPaused tr r), ABool True]) (rev (shut tr)) @
     [Call ''SR.remove_from_other_config'' [AStr ref, AStr OC_MAINTENANCE]]"

text \<open>
  The invariants of the three stretches of the body after the placeholder is written. While
  VMs are discovered nothing is shut down and the recorded flags are the flags read; while
  VMs are shut down nothing is unplugged; throughout, the stack of \<^verbatim>\<open>$defer\<close> holds the
  undo calls of exactly the steps that succeeded, in the order of their completion.
\<close>

definition registered :: "ref \<Rightarrow> 'w st \<Rightarrow> bool" where
  "registered ref s \<longleftrightarrow>
     deferred s =
       Call ''SR.remove_from_other_config'' [AStr ref, AStr OC_MAINTENANCE] #
       map (\<lambda>r. CallAsync ''VM.start'' [AStr r, ABool (wasPaused (trace s) r), ABool True])
         (shut (trace s)) @
       map (\<lambda>r. CallAsync ''PBD.plug'' [AStr r]) (unplugged (trace s))"

definition shutting :: "ref \<Rightarrow> (ref \<times> bool) list \<Rightarrow> 'w st \<Rightarrow> bool" where
  "shutting ref vms s \<longleftrightarrow>
     registered ref s \<and> unplugged (trace s) = [] \<and>
     (\<forall>(r, p)\<in>set vms. p = wasPaused (trace s) r)"

definition discovering :: "ref \<Rightarrow> 'w st \<Rightarrow> bool" where
  "discovering ref s \<longleftrightarrow>
     shutting ref (runningVms s) s \<and> shut (trace s) = [] \<and>
     (\<forall>r. wasPaused (trace s) r \<longrightarrow> r \<in> fst ` set (runningVms s))"

text \<open>
  The calls that store a maintenance state under \<^verbatim>\<open>other_config\<close> of the SR: the
  add-if-absent write \<^verbatim>\<open>SR.add_to_other_config\<close> and \<^verbatim>\<open>setFieldEntry\<close>. A state of the
  body is in the middle when its trace starts with the call \<open>c0\<close> and no later call is
  such a write; it is written last when its trace starts with \<open>c0\<close>, no call strictly
  between the first and the last one is such a write and, if the body succeeded, the last
  call is the \<^verbatim>\<open>setFieldEntry\<close> that stores the whole local state.
\<close>

definition is_write :: "call \<Rightarrow> bool" where
  "is_write c =
     (case c of
        SetFieldEntry _ _ _ _ _ \<Rightarrow> True
      | Call n _ \<Rightarrow> n = ''SR.add_to_other_config''
      | _ \<Rightarrow> False)"

definition midquiet :: "call \<Rightarrow> 'w st \<Rightarrow> bool" where
  "midquiet c0 s \<longleftrightarrow>
     trace s \<noteq> [] \<and> fst (hd (trace s)) = c0 \<and> (\<forall>e\<in>set (tl (trace s)). \<not> is_write (fst e))"

definition written_last :: "call \<Rightarrow> ref \<Rightarrow> error + unit \<Rightarrow> 'w st \<Rightarrow> bool" where
  "written_last c0 ref res s \<longleftrightarrow>
     trace s \<noteq> [] \<and> fst (hd (trace s)) = c0 \<and>
     (\<forall>e\<in>set (butlast (tl (trace s))). \<not> is_write (fst e)) \<and>
     (res = Inr () \<longrightarrow>
        (\<exists>x. last (trace s) =
           (SetFieldEntry ''SR'' ref ''other_config'' OC_MAINTENANCE (AJson (state s)), Inr x)))"

text \<open>
  What the local state holds of the VMs, read against the trace. A uuid was read for a VM
  when a read of its \<^verbatim>\<open>uuid\<close> field answered it. A VM has an entry when
  \<^verbatim>\<open>state.shutdownVms\<close> holds an entry under a uuid that was read for it. The entries are
  read when each of them is keyed by a uuid read for a VM of \<^verbatim>\<open>runningVms\<close> and holds the
  pause flag that \<^verbatim>\<open>runningVms\<close> holds for that VM. The state lists the VMs when every VM
  shut down so far has an entry and the entries are read. Before the shutdowns start no VM
  is shut down and \<^verbatim>\<open>state.shutdownVms\<close> is not assigned yet; while they run, the VMs being
  shut down are VMs of \<^verbatim>\<open>runningVms\<close>.
\<close>

definition uuid_read :: "event list \<Rightarrow> ref \<Rightarrow> string \<Rightarrow> bool" where
  "uuid_read tr r k \<longleftrightarrow> (\<exists>u. (GetField ''VM'' r ''uuid'', Inr u) \<in> set tr \<and> str u = k)"

definition has_entry :: "ref \<Rightarrow> 'w st \<Rightarrow> bool" where
  "has_entry r s \<longleftrightarrow>
     (\<exists>m k. shutdownVms (state s) = Some m \<and> uuid_read (trace s) r k \<and> k \<in> fst ` set m)"

definition entries_read :: "'w st \<Rightarrow> bool" where
  "entries_read s \<longleftrightarrow>
     (\<forall>m. shutdownVms (state s) = Some m \<longrightarrow>
        (\<forall>(k, p)\<in>set m. \<exists>r. (r, p) \<in> set (runningVms s) \<and> uuid_read (trace s) r k))"

definition listed :: "'w st \<Rightarrow> bool" where
  "listed s \<longleftrightarrow> (\<forall>r\<in>set (shut (trace s)). has_entry r s) \<and> entries_read s"

definition unlisted :: "'w st \<Rightarrow> bool" where
  "unlisted s \<longleftrightarrow> shut (trace s) = [] \<and> shutdownVms (state s) = None"

definition listing :: "(ref \<times> bool) list \<Rightarrow> 'w st \<Rightarrow> bool" where
  "listing vms s \<longleftrightarrow> listed s \<and> set vms \<subseteq> set (runningVms s)"

text \<open>
  Modelled from the spec: the remote pool is no code of the repository. To run the
  workflows on concrete inputs, a small pool keeps the \<^verbatim>\<open>other_config\<close> of one SR, where
  \<^verbatim>\<open>add_to_other_config\<close> fails with a conflict on a key that is set (the add-if-absent
  write) and \<^verbatim>\<open>remove_from_other_config\<close> fails on a key that is not (as the comments
  of \<^verbatim>\<open>sr.js\<close> expect), and answers every other call from a table; a call that the table
  does not list fails. The theorems below hold for every remote; this one serves the runs.
\<close>

definition noreply :: reply where
  "noreply = \<lparr>str = [], strs = [], flag = False, config = [], currentSize = 0\<rparr>"

record pool =
  other_config :: "(string \<times> mstate) list"
  answers :: "(call \<times> reply) list"

definition answer :: "call \<Rightarrow> pool \<Rightarrow> outcome \<times> pool" where
  "answer c w =
     (case map_of (answers w) c of
        Some rp \<Rightarrow> (Inr rp, w)
      | None \<Rightarrow> (Inl (Failure ''HANDLE_INVALID''), w))"

definition pool_remote :: "pool remote" where
  "pool_remote c w =
     (case c of
        Call name args \<Rightarrow>
          (if name = ''SR.add_to_other_config'' then
             (case args of
                [AStr r, AStr k, AJson v] \<Rightarrow>
                  if k \<in> fst ` set (other_config w) then (Inl Conflict, w)
                  else (Inr noreply, w\<lparr>other_config := other_config w @ [(k, v)]\<rparr>)
              | _ \<Rightarrow> (Inl (Failure ''MESSAGE_PARAMETER_COUNT_MISMATCH''), w))
           else if name = ''SR.remove_from_other_config'' then
             (case args of
                [AStr r, AStr k] \<Rightarrow>
                  if k \<in> fst ` set (other_config w)
                  then (Inr noreply, w\<lparr>other_config := AList.delete k (other_config w)\<rparr>)
                  else (Inl Conflict, w)
              | _ \<Rightarrow> (Inl (Failure ''MESSAGE_PARAMETER_COUNT_MISMATCH''), w))
           else answer c w)
      | SetFieldEntry t r f k v \<Rightarrow>
          (case v of
             AJson j \<Rightarrow> (Inr noreply, w\<lparr>other_config := AList.update k j (other_config w)\<rparr>)
           | _ \<Rightarrow> (Inl (Failure ''MESSAGE_PARAMETER_COUNT_MISMATCH''), w))
      | GetField t r f \<Rightarrow>
          (if t = ''SR'' \<and> f = ''other_config''
           then (Inr (noreply\<lparr>config := other_config w\<rparr>), w)
           else answer c w)
      | _ \<Rightarrow> answer c w)"

definition reply_str :: "string \<Rightarrow> reply" where
  "reply_str x = noreply\<lparr>str := x\<rparr>"

definition reply_strs :: "string list \<Rightarrow> reply" where
  "reply_strs xs = noreply\<lparr>strs := xs\<rparr>"

definition reply_flag :: "bool \<Rightarrow> reply" where
  "reply_flag b = noreply\<lparr>flag := b\<rparr>"

text \<open>
  Two VBDs of one VDI, on a running VM and on a paused one; the paused VM only stops by a
  hard shutdown; two attached PBDs. In \<open>pool0\<close> the second PBD cannot be unplugged and the
  paused VM cannot be started again; in \<open>pool1\<close> both PBDs can be unplugged.
\<close>

definition pool0 :: pool where
  "pool0 = \<lparr>other_config = [],
     answers =
       [(GetField ''SR'' ''sr'' ''VDIs'', reply_strs [''vdi1'']),
        (GetField ''VDI'' ''vdi1'' ''VBDs'', reply_strs [''vbdA'', ''vbdB'']),
        (GetField ''VBD'' ''vbdA'' ''VM'', reply_str ''vmA''),
        (GetField ''VBD'' ''vbdB'' ''VM'', reply_str ''vmB''),
        (GetField ''VM'' ''vmA'' ''power_state'', reply_str ''Running''),
        (GetField ''VM'' ''vmB'' ''power_state'', reply_str ''Paused''),
        (GetField ''VM'' ''vmA'' ''uuid'', reply_str ''uuidA''),
        (GetField ''VM'' ''vmB'' ''uuid'', reply_str ''uuidB''),
        (CallAsync ''VM.clean_shutdown'' [AStr ''vmA''], noreply),
        (CallAsync ''VM.hard_shutdown'' [AStr ''vmB''], noreply),
        (GetField ''SR'' ''sr'' ''PBDs'', reply_strs [''pbd1'', ''pbd2'']),
        (GetField ''PBD'' ''pbd1'' ''currently_attached'', reply_flag True),
        (GetField ''PBD'' ''pbd1'' ''uuid'', reply_str ''uuidP''),
        (GetField ''PBD'' ''pbd2'' ''currently_attached'', reply_flag True),
        (GetField ''PBD'' ''pbd2'' ''uuid'', reply_str ''uuidQ''),
        (CallAsync ''PBD.unplug'' [AStr ''pbd1''], noreply),
        (CallAsync ''PBD.plug'' [AStr ''pbd1''], noreply),
        (CallAsync ''VM.start'' [AStr ''vmA'', ABool False, ABool True], noreply)]\<rparr>"

definition pool1 :: pool where
  "pool1 = pool0\<lparr>answers := answers pool0 @ [(CallAsync ''PBD.unplug'' [AStr ''pbd2''], noreply)]\<rparr>"

definition placeholder7 :: mstate where
  "placeholder7 = \<lparr>timestamp = 7, shutdownVms = None, unpluggedPbds = None\<rparr>"

definition complete7 :: mstate where
  "complete7 = \<lparr>timestamp = 7, shutdownVms = Some [(''uuidA'', False), (''uuidB'', True)],
                 unpluggedPbds = Some [''uuidP'', ''uuidQ'']\<rparr>"

text \<open>
  The calls that both pools answer alike, up to the unplug of the second PBD, and the states
  in which the body ends on each pool.
\<close>

definition events20 :: "event list" where
  "events20 =
     [(Call ''SR.add_to_other_config'' [AStr ''sr'', AStr ''xo:maintenanceState'', AJson placeholder7],
       Inr noreply),
      (GetField ''SR'' ''sr'' ''VDIs'', Inr (reply_strs [''vdi1''])),
      (GetField ''VDI'' ''vdi1'' ''VBDs'', Inr (reply_strs [''vbdA'', ''vbdB''])),
      (GetField ''VBD'' ''vbdA'' ''VM'', Inr (reply_str ''vmA'')),
      (GetField ''VM'' ''vmA'' ''power_state'', Inr (reply_str ''Running'')),
      (GetField ''VBD'' ''vbdB'' ''VM'', Inr (reply_str ''vmB'')),
      (GetField ''VM'' ''vmB'' ''power_state'', Inr (reply_str ''Paused'')),
      (GetField ''VM'' ''vmA'' ''uuid'', Inr (reply_str ''uuidA'')),
      (GetField ''VM'' ''vmB'' ''uuid'', Inr (reply_str ''uuidB'')),
      (GetField ''VM'' ''vmA'' ''uuid'', Inr (reply_str ''uuidA'')),
      (CallAsync ''VM.clean_shutdown'' [AStr ''vmA''], Inr noreply),
      (GetField ''VM'' ''vmB'' ''uuid'', Inr (reply_str ''uuidB'')),
      (CallAsync ''VM.clean_shutdown'' [AStr ''vmB''], Inl (Failure ''HANDLE_INVALID'')),
      (CallAsync ''VM.hard_shutdown'' [AStr ''vmB''], Inr noreply),
      (GetField ''SR'' ''sr'' ''PBDs'', Inr (reply_strs [''pbd1'', ''pbd2''])),
      (GetField ''PBD'' ''pbd1'' ''currently_attached'', Inr (reply_flag True)),
      (GetField ''PBD'' ''pbd1'' ''uuid'', Inr (reply_str ''uuidP'')),
      (CallAsync ''PBD.unplug'' [AStr ''pbd1''], Inr noreply),
      (GetField ''PBD'' ''pbd2'' ''currently_attached'', Inr (reply_flag True)),
      (GetField ''PBD'' ''pbd2'' ''uuid'', Inr (reply_str ''uuidQ''))]"

definition pool0_failed :: "pool st" where
  "pool0_failed =
     \<lparr>world = pool0\<lparr>other_config := [(''xo:maintenanceState'', placeholder7)]\<rparr>,
      trace = events20 @
        [(CallAsync ''PBD.unplug'' [AStr ''pbd2''], Inl (Failure ''HANDLE_INVALID''))],
      deferred =
        [Call ''SR.remove_from_other_config'' [AStr ''sr'', AStr ''xo:maintenanceState''],
         CallAsync ''VM.start'' [AStr ''vmA'', ABool False, ABool True],
         CallAsync ''VM.start'' [AStr ''vmB'', ABool True, ABool True],
         CallAsync ''PBD.plug'' [AStr ''pbd1'']],
      runningVms = [(''vmA'', False), (''vmB'', True)],
      state = complete7,
      errors = []\<rparr>"

definition pool1_done :: "pool st" where
  "pool1_done =
     \<lparr>world = pool1\<lparr>other_config := [(''xo:maintenanceState'', complete7)]\<rparr>,
      trace = events20 @
        [(CallAsync ''PBD.unplug'' [AStr ''pbd2''], Inr noreply),
         (SetFieldEntry ''SR'' ''sr'' ''other_config'' ''xo:maintenanceState'' (AJson complete7),
          Inr noreply)],
      deferred =
        [Call ''SR.remove_from_other_config'' [AStr ''sr'', AStr ''xo:maintenanceState''],
         CallAsync ''VM.start'' [AStr ''vmA'', ABool False, ABool True],
         CallAsync ''VM.start'' [AStr ''vmB'', ABool True, ABool True],
         CallAsync ''PBD.plug'' [AStr ''pbd1''],
         CallAsync ''PBD.plug'' [AStr ''pbd2'']],
      runningVms = [(''vmA'', False), (''vmB'', True)],
      state = complete7,
      errors = []\<rparr>"

text \<open>
  The words of claim C8 on a trace: every completed shutdown is followed by a successful
  write of the state before another shutdown is attempted.
\<close>

definition shutdown_call :: "call \<Rightarrow> bool" where
  "shutdown_call c =
     (case c of
        CallAsync n _ \<Rightarrow> n = ''VM.clean_shutdown'' \<or> n = ''VM.hard_shutdown''
      | _ \<Rightarrow> False)"

fun written_before_next :: "event list \<Rightarrow> bool" where
  "written_before_next [] = False"
| "written_before_next ((c, out) # es) =
     (if is_write c \<and> (case out of Inr _ \<Rightarrow> True | Inl _ \<Rightarrow> False) then True
      else if shutdown_call c then False
      else written_before_next es)"

fun persisted_as_completed :: "event list \<Rightarrow> bool" where
  "persisted_as_completed [] = True"
| "persisted_as_completed (e # es) =
     ((shut_of e \<noteq> [] \<longrightarrow> written_before_next es) \<and> persisted_as_completed es)"

text \<open>
  The state in which discovery ends on \<open>pool1\<close>, and further pools: one whose SR is in
  maintenance already, one left with the placeholder only, one with nothing at all, one with
  a complete state to restore (the PBD of \<^verbatim>\<open>uuidQ\<close> is gone and the running VM does not
  start), and one that sizes and creates a disk but fails to stream it.
\<close>

definition pool1_discovered :: "pool st" where
  "pool1_discovered =
     \<lparr>world = pool1\<lparr>other_config := [(''xo:maintenanceState'', placeholder7)]\<rparr>,
      trace = take 9 events20,
      deferred = [Call ''SR.remove_from_other_config'' [AStr ''sr'', AStr ''xo:maintenanceState'']],
      runningVms = [(''vmA'', False), (''vmB'', True)],
      state = placeholder7,
      errors = []\<rparr>"

definition pool_in_maintenance :: pool where
  "pool_in_maintenance = pool0\<lparr>other_config := [(''xo:maintenanceState'', complete7)]\<rparr>"

definition pool_placeholder :: pool where
  "pool_placeholder = \<lparr>other_config = [(''xo:maintenanceState'', placeholder7)], answers = []\<rparr>"

definition pool_blank :: pool where
  "pool_blank = \<lparr>other_config = [], answers = []\<rparr>"

text \<open>
  Modelled from the spec: a remote that loses one removal. While its flag is set, the next
  \<^verbatim>\<open>SR.remove_from_other_config\<close> fails, changes nothing on the pool and clears the flag;
  every other call is answered by the small pool.
\<close>

definition flaky_remote :: "(pool \<times> bool) remote" where
  "flaky_remote c w =
     (if snd w \<and> (case c of Call name args \<Rightarrow> name = ''SR.remove_from_other_config'' | _ \<Rightarrow> False)
      then (Inl (Failure ''HOST_OFFLINE''), (fst w, False))
      else (case pool_remote c (fst w) of (out, p) \<Rightarrow> (out, (p, snd w))))"

definition pool_restorable :: pool where
  "pool_restorable =
     \<lparr>other_config = [(''xo:maintenanceState'', complete7)],
      answers =
        [(Call ''PBD.get_by_uuid'' [AStr ''uuidP''], reply_str ''pbd1''),
         (CallAsync ''PBD.plug'' [AStr ''pbd1''], noreply),
         (Call ''VM.get_by_uuid'' [AStr ''uuidA''], reply_str ''vmA''),
         (Call ''VM.get_by_uuid'' [AStr ''uuidB''], reply_str ''vmB''),
         (CallAsync ''VM.start'' [AStr ''vmB'', ABool True, ABool True], noreply)]\<rparr>"



section \<open>The watcher bridge: proofs\<close>

lemma tables_ok_bridge0: "tables_ok bridge0"
  by (simp add: tables_ok_def bridge0_def)

lemma tables_ok_waitObject: "tables_ok s \<Longrightarrow> tables_ok (snd (waitObject k s))"
  unfolding tables_ok_def waitObject_def
  by (auto split: option.splits if_splits simp: less_Suc_eq)

lemma tables_ok_watchTask: "tables_ok s \<Longrightarrow> tables_ok (snd (watchTask a s))"
  unfolding tables_ok_def watchTask_def Let_def
  by (auto split: option.splits if_splits simp: less_Suc_eq)

lemma tables_ok_watchedObject: "tables_ok s \<Longrightarrow> tables_ok (watchedObject k object s)"
  unfolding tables_ok_def watchedObject_def resolve_def
  by (auto split: option.splits if_splits)

lemma tables_ok_watchedTask: "tables_ok s \<Longrightarrow> tables_ok (watchedTask object s)"
  unfolding tables_ok_def watchedTask_def resolve_def reject_def
  by (auto split: option.splits if_splits)

lemma tables_ok_onObject: "tables_ok s \<Longrightarrow> tables_ok (onObject object s)"
  by (simp add: onObject_def tables_ok_watchedObject tables_ok_watchedTask)

lemma tables_ok_onAddOrUpdate: "tables_ok s \<Longrightarrow> tables_ok (onAddOrUpdate objects s)"
  unfolding onAddOrUpdate_def
  by (induction objects arbitrary: s) (simp_all add: tables_ok_onObject)

lemma tables_ok_step: "tables_ok s \<Longrightarrow> tables_ok (step x s)"
  by (cases x) (simp_all add: tables_ok_waitObject tables_ok_watchTask tables_ok_onAddOrUpdate)

lemma tables_ok_run: "tables_ok s \<Longrightarrow> tables_ok (run ops s)"
  unfolding run_def
  by (induction ops arbitrary: s) (simp_all add: tables_ok_step)









lemma unrejectable_waitObject: "unrejectable h s \<Longrightarrow> unrejectable h (snd (waitObject k s))"
  unfolding unrejectable_def waitObject_def
  by (auto split: option.splits)

lemma unrejectable_watchTask: "unrejectable h s \<Longrightarrow> unrejectable h (snd (watchTask a s))"
  unfolding unrejectable_def watchTask_def Let_def
  by (auto split: option.splits)

lemma unrejectable_watchedObject:
  "unrejectable h s \<Longrightarrow> unrejectable h (watchedObject k object s)"
  unfolding unrejectable_def watchedObject_def resolve_def
  by (auto split: option.splits)

lemma unrejectable_watchedTask: "unrejectable h s \<Longrightarrow> unrejectable h (watchedTask object s)"
  unfolding unrejectable_def watchedTask_def resolve_def reject_def
  by (auto split: option.splits)

lemma unrejectable_onAddOrUpdate:
  "unrejectable h s \<Longrightarrow> unrejectable h (onAddOrUpdate objects s)"
  unfolding onAddOrUpdate_def
  by (induction objects arbitrary: s)
     (simp_all add: onObject_def unrejectable_watchedObject unrejectable_watchedTask)

lemma unrejectable_run: "unrejectable h s \<Longrightarrow> unrejectable h (run ops s)"
  unfolding run_def
proof (induction ops arbitrary: s)
  case Nil
  then show ?case by simp
next
  case (Cons x ops)
  have "unrejectable h (step x s)"
    using Cons.prems
    by (cases x)
       (simp_all add: unrejectable_waitObject unrejectable_watchTask unrejectable_onAddOrUpdate)
  with Cons.IH show ?case by simp
qed

lemma waitObject_unrejectable:
  "tables_ok s \<Longrightarrow> waitObject k s = (h, s1) \<Longrightarrow> unrejectable h s1"
  unfolding tables_ok_def unrejectable_def waitObject_def
  by (auto split: option.splits) (metis less_irrefl)+



subsection \<open>Claims about the watcher bridge\<close>

text \<open>
  C4. A key has at most one pending watch: the tables are maps, a wait on a key that has an
  unresolved watch returns the handle of that watch and registers nothing, for objects
  (\<^verbatim>\<open>_waitObject\<close>) and for tasks (\<^verbatim>\<open>_watchTask\<close>) alike; so a second wait right after a
  first one yields the same promise, and every waiter on the key sees the one resolution
  of that promise. In every state the bridge can reach, the watch registered under a key is
  unresolved.
\<close>

theorem one_watch_per_key:
  "(objectWatchers s k = Some h \<longrightarrow> waitObject k s = (h, s)) \<and>
   (taskWatchers s (task_key a) = Some h \<longrightarrow> watchTask a s = (h, s)) \<and>
   waitObject k (snd (waitObject k s)) = (fst (waitObject k s), snd (waitObject k s)) \<and>
   watchTask a (snd (watchTask a s)) = (fst (watchTask a s), snd (watchTask a s)) \<and>
   (objectWatchers (run ops bridge0) k = Some h' \<longrightarrow> promises (run ops bridge0) h' = Pending) \<and>
   (taskWatchers (run ops bridge0) k = Some h' \<longrightarrow> promises (run ops bridge0) h' = Pending)"
proof -
  have "tables_ok (run ops bridge0)"
    by (rule tables_ok_run [OF tables_ok_bridge0])
  then have "(objectWatchers (run ops bridge0) k = Some h' \<longrightarrow>
                promises (run ops bridge0) h' = Pending) \<and>
             (taskWatchers (run ops bridge0) k = Some h' \<longrightarrow>
                promises (run ops bridge0) h' = Pending)"
    unfolding tables_ok_def by blast
  then show ?thesis
    by (auto simp: waitObject_def watchTask_def Let_def split: option.splits)
qed

theorem one_watch_per_key_witness:
  "objectWatchers (snd (waitObject ''vm-1'' bridge0)) ''vm-1'' = Some 0 \<and>
   waitObject ''vm-1'' (snd (waitObject ''vm-1'' bridge0)) = (0, snd (waitObject ''vm-1'' bridge0)) \<and>
   taskWatchers (snd (watchTask (TRef ''task-1'') bridge0)) (task_key (TRef ''task-1'')) = Some 0 \<and>
   watchTask (TRef ''task-1'') (snd (watchTask (TRef ''task-1'') bridge0)) =
     (0, snd (watchTask (TRef ''task-1'') bridge0)) \<and>
   promises (run [WaitObject ''vm-1''] bridge0) 0 = Pending"
  using one_watch_per_key [where s = "snd (waitObject ''vm-1'' bridge0)" and k = "''vm-1''"
      and h = 0 and a = "TRef ''task-1''" and ops = "[WaitObject ''vm-1'']" and h' = 0]
    one_watch_per_key [where s = "snd (watchTask (TRef ''task-1'') bridge0)" and k = "''vm-1''"
      and h = 0 and a = "TRef ''task-1''" and ops = "[WaitObject ''vm-1'']" and h' = 0]
  by (simp add: waitObject_def watchTask_def task_key_def bridge0_def run_def)



text \<open>
  C9. One notification resolves two object watches: in any state the bridge can reach, when
  one watch is registered under the object's \<^verbatim>\<open>$id\<close> and another under its \<^verbatim>\<open>$ref\<close>,
  the two are distinct promises, the notification of the object resolves both with that
  object, and both entries leave the table.
\<close>

theorem one_notification_two_watches:
  assumes "s = run ops bridge0"
    and "objectWatchers s (obj_id object) = Some h1"
    and "objectWatchers s (obj_ref object) = Some h2"
    and "obj_id object \<noteq> obj_ref object"
  shows "h1 \<noteq> h2 \<and>
         promises (onAddOrUpdate [object] s) h1 = Resolved (RObject object) \<and>
         promises (onAddOrUpdate [object] s) h2 = Resolved (RObject object) \<and>
         objectWatchers (onAddOrUpdate [object] s) (obj_id object) = None \<and>
         objectWatchers (onAddOrUpdate [object] s) (obj_ref object) = None"
proof -
  have ok: "tables_ok s"
    using assms(1) tables_ok_run [OF tables_ok_bridge0] by simp
  from ok assms(2,3,4) show ?thesis
    unfolding tables_ok_def onAddOrUpdate_def onObject_def watchedTask_def watchedObject_def
      resolve_def reject_def
    by (auto split: option.splits)
qed

theorem one_notification_two_watches_witness:
  "promises (onAddOrUpdate
       [\<lparr>obj_id = ''id-1'', obj_ref = ''ref-1'', status = [], result = [], error_info = []\<rparr>]
       (run [WaitObject ''id-1'', WaitObject ''ref-1''] bridge0)) 0 =
     Resolved (RObject \<lparr>obj_id = ''id-1'', obj_ref = ''ref-1'', status = [], result = [],
                        error_info = []\<rparr>) \<and>
   promises (onAddOrUpdate
       [\<lparr>obj_id = ''id-1'', obj_ref = ''ref-1'', status = [], result = [], error_info = []\<rparr>]
       (run [WaitObject ''id-1'', WaitObject ''ref-1''] bridge0)) 1 =
     Resolved (RObject \<lparr>obj_id = ''id-1'', obj_ref = ''ref-1'', status = [], result = [],
                        error_info = []\<rparr>)"
  using one_notification_two_watches [of "run [WaitObject ''id-1'', WaitObject ''ref-1''] bridge0"
      "[WaitObject ''id-1'', WaitObject ''ref-1'']"
      "\<lparr>obj_id = ''id-1'', obj_ref = ''ref-1'', status = [], result = [], error_info = []\<rparr>" 0 1]
  by (simp add: run_def waitObject_def bridge0_def)

text \<open>
  C10. An object watch is never rejected: whatever happened to the bridge before the wait
  and whatever happens after it (waits, task watches, notification batches), the promise
  returned by \<^verbatim>\<open>_waitObject\<close> is not in a rejected state. Only the task branch of the
  handler calls \<^verbatim>\<open>reject\<close>, on a handle of the task table, and the two tables never share
  a handle.
\<close>

theorem object_watch_never_rejected:
  "waitObject k (run ops bridge0) = (h, s1) \<Longrightarrow> promises (run ops' s1) h \<noteq> Rejected e"
  using unrejectable_run [of h s1 ops'] waitObject_unrejectable [of "run ops bridge0" k h s1]
    tables_ok_run [OF tables_ok_bridge0, of ops]
  by (simp add: unrejectable_def)

theorem object_watch_never_rejected_witness:
  "promises (run [Notify [\<lparr>obj_id = ''id-1'', obj_ref = ''ref-1'', status = ''failure'',
                          result = [], error_info = [''boom'']\<rparr>]]
              (snd (waitObject ''ref-1'' (run [WatchTask (TRef ''ref-1'')] bridge0)))) 1
     \<noteq> Rejected (wrapError [''boom''])"
  using object_watch_never_rejected [of "''ref-1''" "[WatchTask (TRef ''ref-1'')]" 1
      "snd (waitObject ''ref-1'' (run [WatchTask (TRef ''ref-1'')] bridge0))"
      "[Notify [\<lparr>obj_id = ''id-1'', obj_ref = ''ref-1'', status = ''failure'',
                 result = [], error_info = [''boom'']\<rparr>]]" "wrapError [''boom'']"]
  by (simp add: run_def waitObject_def watchTask_def task_key_def bridge0_def)

section \<open>The storage workflows: proofs\<close>

subsection \<open>Triples and invariants\<close>

lemma triple_await:
  assumes "triple P m Q1" and "\<And>a. triple (Q1 (Inr a)) (f a) Q2"
    and "\<And>e s. Q1 (Inl e) s \<Longrightarrow> Q2 (Inl e) s"
  shows "triple P (await m f) Q2"
  unfolding triple_def
proof (intro allI impI)
  fix s r s'
  assume P: "P s" and run: "await m f s = (r, s')"
  obtain r1 s1 where m: "m s = (r1, s1)" by (cases "m s")
  with assms(1) P have q1: "Q1 r1 s1" by (simp add: triple_def)
  show "Q2 r s'"
  proof (cases r1)
    case (Inl e)
    with m run have "r = Inl e" "s' = s1" by (simp_all add: await_def)
    with q1 Inl assms(3) show ?thesis by simp
  next
    case (Inr a)
    with m run have "f a s = (r, s')" if False using that by simp
    from Inr m run have "f a s1 = (r, s')" by (simp add: await_def)
    with assms(2) [of a] q1 Inr show ?thesis by (simp add: triple_def)
  qed
qed

lemma preserves_await:
  "preserves I m \<Longrightarrow> (\<And>a. preserves I (f a)) \<Longrightarrow> preserves I (await m f)"
  unfolding preserves_def by (rule triple_await [where ?Q1.0 = "\<lambda>_. I"]) simp_all

lemma preserves_step:
  "preserves I m \<Longrightarrow> (\<And>a. preserves J (f a)) \<Longrightarrow> (\<And>s. I s \<Longrightarrow> J s) \<Longrightarrow>
   triple I (await m f) (\<lambda>_. J)"
  unfolding preserves_def
  by (rule triple_await [where ?Q1.0 = "\<lambda>_. J"]) (auto simp: triple_def)

lemma preserves_return: "preserves I (return a)"
  by (simp add: preserves_def triple_def return_def)

lemma preserves_throw: "preserves I (throw e)"
  by (simp add: preserves_def triple_def throw_def)

lemma preserves_rpc:
  "(\<And>s r w'. I s \<Longrightarrow> I (s\<lparr>world := w', trace := trace s @ [(c, r)]\<rparr>)) \<Longrightarrow> preserves I (rpc R c)"
  by (auto simp: preserves_def triple_def rpc_def split: prod.splits)

lemma preserves_asyncMap:
  "(\<And>x. x \<in> set xs \<Longrightarrow> preserves I (f x)) \<Longrightarrow> preserves I (asyncMap f xs)"
proof (induction xs)
  case Nil
  then show ?case by (simp add: preserves_def triple_def)
next
  case (Cons x xs)
  have x: "preserves I (f x)" and xs: "preserves I (asyncMap f xs)"
    using Cons by simp_all
  show ?case
    unfolding preserves_def triple_def
  proof (intro allI impI)
    fix s r s'
    assume I: "I s" and run: "asyncMap f (x # xs) s = (r, s')"
    obtain r1 s1 where f: "f x s = (r1, s1)" by (cases "f x s")
    with x I have I1: "I s1" by (auto simp: preserves_def triple_def)
    obtain r2 s2 where g: "asyncMap f xs s1 = (r2, s2)" by (cases "asyncMap f xs s1")
    with xs I1 have I2: "I s2" by (auto simp: preserves_def triple_def)
    from run f g have "s' = s1 \<or> s' = s2"
      by (auto split: sum.splits)
    with I1 I2 show "I s'" by auto
  qed
qed

lemma preserves_asyncMapSettled:
  "(\<And>x. x \<in> set xs \<Longrightarrow> preserves I (f x)) \<Longrightarrow> preserves I (asyncMapSettled f xs)"
proof (induction xs)
  case Nil
  then show ?case by (simp add: preserves_def triple_def)
next
  case (Cons x xs)
  have x: "preserves I (f x)" and xs: "preserves I (asyncMapSettled f xs)"
    using Cons by simp_all
  show ?case
    unfolding preserves_def triple_def
  proof (intro allI impI)
    fix s r s'
    assume I: "I s" and run: "asyncMapSettled f (x # xs) s = (r, s')"
    obtain r1 s1 where f: "f x s = (r1, s1)" by (cases "f x s")
    with x I have I1: "I s1" by (auto simp: preserves_def triple_def)
    obtain r2 s2 where g: "asyncMapSettled f xs s1 = (r2, s2)" by (cases "asyncMapSettled f xs s1")
    with xs I1 have I2: "I s2" by (auto simp: preserves_def triple_def)
    from run f g have "s' = s2"
      by (auto split: sum.splits)
    with I2 show "I s'" by auto
  qed
qed

lemma preserves_onFailure:
  "(\<And>s. I s \<Longrightarrow> I (s\<lparr>deferred := deferred s @ [c]\<rparr>)) \<Longrightarrow> preserves I (onFailure c)"
  by (auto simp: preserves_def triple_def onFailure_def)

lemma preserves_dep: "(\<And>x. preserves I (m x)) \<Longrightarrow> preserves I (\<lambda>s. m (g s) s)"
  by (auto simp: preserves_def triple_def)

lemmas prog_defs = await_def return_def throw_def rpc_def onFailure_def

subsection \<open>Nothing is disrupted while VMs are discovered\<close>

lemma quiet_handleVbd: "preserves quiet (handleVbd R ref)"
  unfolding preserves_def triple_def handleVbd_def Let_def prog_defs quiet_def
  by (auto simp: async_def split: prod.splits sum.splits if_splits)

lemma quiet_rpc: "\<not> async c \<Longrightarrow> preserves quiet (rpc R c)"
  by (rule preserves_rpc) (simp add: quiet_def)

lemma quiet_writePlaceholder: "preserves quiet (writePlaceholder R now ref)"
  unfolding preserves_def triple_def writePlaceholder_def prog_defs quiet_def
  by (auto simp: async_def split: prod.splits sum.splits if_splits)

lemma quiet_discoverVms: "preserves quiet (discoverVms R ref)"
  unfolding discoverVms_def
  by (intro preserves_await preserves_asyncMap preserves_return quiet_handleVbd quiet_rpc)
     (simp_all add: async_def)

lemma quiet_getRunningVmUuids: "preserves quiet (getRunningVmUuids R)"
  unfolding getRunningVmUuids_def
  by (rule preserves_dep [where m = "\<lambda>xs. asyncMap _ xs"])
     (intro preserves_await preserves_asyncMap preserves_return quiet_rpc, simp add: async_def)

lemma quiet_discovery: "preserves quiet (discovery R now ref)"
  unfolding discovery_def
  by (intro preserves_await quiet_writePlaceholder quiet_discoverVms quiet_getRunningVmUuids)

lemma checkLoop_eq:
  "checkLoop vms all us =
     (if set us \<subseteq> set vms then Inr () else Inl (IncorrectState vms all ''vmsToShutdown''))"
  by (induction us) auto

lemma quiet_runDeferred: "quiet s \<Longrightarrow> quiet (runDeferred R s)"
proof -
  have "\<forall>c\<in>set cs. \<not> async c \<Longrightarrow> quiet s \<Longrightarrow> quiet (fold (\<lambda>c s'. snd (rpc R c s')) cs s)" for cs
  proof (induction cs arbitrary: s)
    case Nil
    then show ?case by simp
  next
    case (Cons c cs)
    have "quiet (snd (rpc R c s))"
      using Cons.prems by (auto simp: quiet_def rpc_def split: prod.splits)
    with Cons show ?case by simp
  qed
  from this [of "rev (deferred s)"] show "quiet s \<Longrightarrow> quiet (runDeferred R s)"
    by (simp add: runDeferred_def quiet_def)
qed

subsection \<open>The stack of deferred calls follows the trace\<close>

lemma shut_simps [simp]:
  "shut [] = []" "shut (e # es) = shut_of e @ shut es" "shut (tr @ tr') = shut tr @ shut tr'"
  by (simp_all add: shut_def)

lemma unplugged_simps [simp]:
  "unplugged [] = []" "unplugged (e # es) = unplugged_of e @ unplugged es"
  "unplugged (tr @ tr') = unplugged tr @ unplugged tr'"
  by (simp_all add: unplugged_def)

lemma wasPaused_simps [simp]:
  "wasPaused [] r = False" "wasPaused (e # es) r = (paused_read r e \<or> wasPaused es r)"
  "wasPaused (tr @ tr') r = (wasPaused tr r \<or> wasPaused tr' r)"
  by (simp_all add: wasPaused_def)

lemma shut_of_simps [simp]:
  "shut_of (c, Inl x) = []"
  "shut_of (GetField t v f, y) = []"
  "shut_of (Call n args, y) = []"
  "shut_of (SetFieldEntry t v f k a, y) = []"
  "shut_of (CallAsync n [AStr r], Inr z) =
     (if n = ''VM.clean_shutdown'' \<or> n = ''VM.hard_shutdown'' then [r] else [])"
  by (simp_all add: shut_of_def split: call.splits list.splits arg.splits sum.splits)

lemma unplugged_of_simps [simp]:
  "unplugged_of (c, Inl x) = []"
  "unplugged_of (GetField t v f, y) = []"
  "unplugged_of (Call n args, y) = []"
  "unplugged_of (SetFieldEntry t v f k a, y) = []"
  "unplugged_of (CallAsync n [AStr r], Inr z) = (if n = ''PBD.unplug'' then [r] else [])"
  by (simp_all add: unplugged_of_def split: call.splits list.splits arg.splits sum.splits)

lemma paused_read_simps [simp]:
  "paused_read r (c, Inl x) = False"
  "paused_read r (CallAsync n args, y) = False"
  "paused_read r (Call n args, y) = False"
  "paused_read r (SetFieldEntry t v f k a, y) = False"
  "paused_read r (GetField t v f, Inr rp) =
     (t = ''VM'' \<and> v = r \<and> f = ''power_state'' \<and> str rp = ''Paused'')"
  by (simp_all add: paused_read_def split: call.splits sum.splits)

lemma set_update_fresh:
  "k \<notin> fst ` set al \<Longrightarrow> set (AList.update k v al) = insert (k, v) (set al)"
  by (induction al) auto

lemma in_keys: "(k, v) \<in> set al \<Longrightarrow> k \<in> fst ` set al"
  by force

lemma discovering_handleVbd: "preserves (discovering ref) (handleVbd R vbd)"
  unfolding preserves_def triple_def handleVbd_def Let_def prog_defs discovering_def shutting_def
    registered_def
  by (auto simp: set_update_fresh split: prod.splits sum.splits if_splits dest: in_keys)

lemma paused_read_other [simp]:
  "f \<noteq> ''power_state'' \<Longrightarrow> paused_read r (GetField t v f, y) = False"
  "t \<noteq> ''VM'' \<Longrightarrow> paused_read r (GetField t v f, y) = False"
  by (simp_all add: paused_read_def split: sum.splits)

lemma discovering_rpc_read:
  "f \<noteq> ''power_state'' \<Longrightarrow> preserves (discovering ref) (rpc R (GetField t v f))"
  by (intro preserves_rpc) (simp add: discovering_def shutting_def registered_def)

lemma discovering_discoverVms: "preserves (discovering ref) (discoverVms R sr)"
  unfolding discoverVms_def
  by (intro preserves_await preserves_asyncMap preserves_return discovering_handleVbd
      discovering_rpc_read) simp_all

lemma discovering_getRunningVmUuids: "preserves (discovering ref) (getRunningVmUuids R)"
  unfolding getRunningVmUuids_def
  by (rule preserves_dep [where m = "\<lambda>xs. asyncMap _ xs"])
     (intro preserves_await preserves_asyncMap preserves_return discovering_rpc_read, simp)

lemma shutting_shutdown_step:
  "triple (shutting ref vms)
     (\<lambda>s. case rpc R (CallAsync ''VM.clean_shutdown'' [AStr r]) s of
             (Inl error, s') \<Rightarrow> rpc R (CallAsync ''VM.hard_shutdown'' [AStr r]) s'
           | (Inr v, s') \<Rightarrow> (Inr v, s'))
     (\<lambda>res s. case res of
                 Inl _ \<Rightarrow> shutting ref vms s
               | Inr _ \<Rightarrow>
                   shutting ref vms
                     (s\<lparr>deferred := deferred s @
                          [CallAsync ''VM.start'' [AStr r, ABool (wasPaused (trace s) r), ABool True]]\<rparr>))"
  unfolding triple_def rpc_def shutting_def registered_def
  by (auto split: prod.splits sum.splits)

lemma shutting_shutdownVm:
  assumes "(r, p) \<in> set vms"
  shows "preserves (shutting ref vms) (shutdownVm R (r, p))"
proof -
  have read: "preserves (shutting ref vms) (rpc R (GetField ''VM'' r ''uuid''))"
    by (intro preserves_rpc) (simp add: shutting_def registered_def)
  have noted: "preserves (shutting ref vms)
      (\<lambda>s. case shutdownVms (state s) of
              None \<Rightarrow> throw TypeError s
            | Some m \<Rightarrow>
                return () (s\<lparr>state := (state s)\<lparr>shutdownVms := Some (AList.update k p m)\<rparr>\<rparr>))" for k
    by (auto simp: preserves_def triple_def throw_def return_def shutting_def registered_def
        split: option.splits)
  have push: "triple
      (\<lambda>s. shutting ref vms
         (s\<lparr>deferred := deferred s @
              [CallAsync ''VM.start'' [AStr r, ABool (wasPaused (trace s) r), ABool True]]\<rparr>))
      (onFailure (CallAsync ''VM.start'' [AStr r, ABool p, ABool True]))
      (\<lambda>_. shutting ref vms)"
    using assms by (auto simp: triple_def onFailure_def shutting_def)
  have stop: "triple (shutting ref vms)
      (await (\<lambda>s. case rpc R (CallAsync ''VM.clean_shutdown'' [AStr r]) s of
                     (Inl error, s') \<Rightarrow> rpc R (CallAsync ''VM.hard_shutdown'' [AStr r]) s'
                   | (Inr v, s') \<Rightarrow> (Inr v, s'))
             (\<lambda>_. onFailure (CallAsync ''VM.start'' [AStr r, ABool p, ABool True])))
      (\<lambda>_. shutting ref vms)"
    by (rule triple_await [OF shutting_shutdown_step]) (simp_all add: push)
  show ?thesis
    unfolding shutdownVm_def preserves_def prod.case
    by (intro triple_await [where ?Q1.0 = "\<lambda>_. shutting ref vms"] read [unfolded preserves_def]
        noted [unfolded preserves_def] stop) simp_all
qed

lemma registered_unplug_step:
  "triple (registered ref) (rpc R (CallAsync ''PBD.unplug'' [AStr pbd]))
     (\<lambda>res s. case res of
                 Inl _ \<Rightarrow> registered ref s
               | Inr _ \<Rightarrow> registered ref (s\<lparr>deferred := deferred s @ [CallAsync ''PBD.plug'' [AStr pbd]]\<rparr>))"
  unfolding triple_def rpc_def registered_def
  by (auto split: prod.splits sum.splits)

lemma registered_unplugPbd: "preserves (registered ref) (unplugPbd R pbd)"
proof -
  have read: "preserves (registered ref) (rpc R (GetField ''PBD'' pbd f))" for f
    by (intro preserves_rpc) (simp add: registered_def)
  have noted: "preserves (registered ref)
      (\<lambda>s. case unpluggedPbds (state s) of
              None \<Rightarrow> throw TypeError s
            | Some l \<Rightarrow> return () (s\<lparr>state := (state s)\<lparr>unpluggedPbds := Some (l @ [k])\<rparr>\<rparr>))" for k
    by (auto simp: preserves_def triple_def throw_def return_def registered_def
        split: option.splits)
  have push: "triple
      (\<lambda>s. registered ref (s\<lparr>deferred := deferred s @ [CallAsync ''PBD.plug'' [AStr pbd]]\<rparr>))
      (onFailure (CallAsync ''PBD.plug'' [AStr pbd]))
      (\<lambda>_. registered ref)"
    by (auto simp: triple_def onFailure_def)
  have stop: "triple (registered ref)
      (await (rpc R (CallAsync ''PBD.unplug'' [AStr pbd]))
             (\<lambda>_. onFailure (CallAsync ''PBD.plug'' [AStr pbd])))
      (\<lambda>_. registered ref)"
    by (rule triple_await [OF registered_unplug_step]) (simp_all add: push)
  have attached: "preserves (registered ref)
      (await (rpc R (GetField ''PBD'' pbd ''uuid'')) (\<lambda>u.
       await (\<lambda>s. case unpluggedPbds (state s) of
                     None \<Rightarrow> throw TypeError s
                   | Some l \<Rightarrow>
                       return () (s\<lparr>state := (state s)\<lparr>unpluggedPbds := Some (l @ [str u])\<rparr>\<rparr>)) (\<lambda>_.
       await (rpc R (CallAsync ''PBD.unplug'' [AStr pbd])) (\<lambda>_.
       onFailure (CallAsync ''PBD.plug'' [AStr pbd])))))"
    unfolding preserves_def
    by (intro triple_await [where ?Q1.0 = "\<lambda>_. registered ref"] read [unfolded preserves_def]
        noted [unfolded preserves_def] stop) simp_all
  show ?thesis
    unfolding unplugPbd_def
    by (rule preserves_await [OF read]) (simp add: attached preserves_return)
qed

lemma shutdownRunningVms_registered:
  "triple (discovering ref) (shutdownRunningVms R) (\<lambda>_. registered ref)"
  unfolding triple_def
proof (intro allI impI)
  fix s r s'
  assume d: "discovering ref s" and run: "shutdownRunningVms R s = (r, s')"
  define s1 where "s1 = s\<lparr>state := (state s)\<lparr>shutdownVms := Some []\<rparr>\<rparr>"
  have s1: "shutting ref (runningVms s) s1"
    using d by (simp add: s1_def discovering_def shutting_def registered_def)
  have "preserves (shutting ref (runningVms s)) (asyncMapSettled (shutdownVm R) (runningVms s))"
    by (rule preserves_asyncMapSettled) (auto intro: shutting_shutdownVm)
  moreover obtain r1 where "asyncMapSettled (shutdownVm R) (runningVms s) s1 = (r1, s')"
    using run
    by (auto simp: shutdownRunningVms_def await_def return_def s1_def split: prod.splits sum.splits)
  ultimately have "shutting ref (runningVms s) s'"
    using s1 by (auto simp: preserves_def triple_def)
  then show "registered ref s'" by (simp add: shutting_def)
qed

lemma registered_unplugPbds: "preserves (registered ref) (unplugPbds R sr)"
proof -
  have init: "preserves (registered ref)
      (\<lambda>s. return () (s\<lparr>state := (state s)\<lparr>unpluggedPbds := Some []\<rparr>\<rparr>))"
    by (simp add: preserves_def triple_def return_def registered_def)
  have read: "preserves (registered ref) (rpc R (GetField ''SR'' sr ''PBDs''))"
    by (intro preserves_rpc) (simp add: registered_def)
  show ?thesis
    unfolding unplugPbds_def
    by (intro preserves_await init read preserves_asyncMapSettled registered_unplugPbd
        preserves_return)
qed

lemma registered_persistState: "preserves (registered ref) (persistState R sr)"
  unfolding persistState_def preserves_def triple_def prog_defs
  by (auto simp: registered_def split: prod.splits sum.splits)

lemma disrupt_registered: "triple (discovering ref) (disrupt R sr) (\<lambda>_. registered ref)"
proof -
  have tail: "triple (registered ref) (await (unplugPbds R sr) (\<lambda>_. persistState R sr))
      (\<lambda>_. registered ref)"
    using preserves_await [OF registered_unplugPbds registered_persistState]
    by (simp add: preserves_def)
  show ?thesis
    unfolding disrupt_def
    by (rule triple_await [OF shutdownRunningVms_registered]) (simp_all add: tail)
qed

lemma rest_registered:
  "triple (discovering ref)
     (await (await (discoverVms R sr) (\<lambda>_. getRunningVmUuids R)) (\<lambda>runningVmUuids.
      await (checkVmsToShutdown vmsToShutdown runningVmUuids) (\<lambda>_. disrupt R sr)))
     (\<lambda>_. registered ref)"
proof -
  have disc: "triple (discovering ref) (await (discoverVms R sr) (\<lambda>_. getRunningVmUuids R))
      (\<lambda>_. discovering ref)"
    using preserves_await [OF discovering_discoverVms discovering_getRunningVmUuids]
    by (simp add: preserves_def)
  have chk: "triple (discovering ref) (checkVmsToShutdown vmsToShutdown us) (\<lambda>_. discovering ref)"
    for us
    by (simp add: triple_def checkVmsToShutdown_def)
  have reg: "discovering ref s \<Longrightarrow> registered ref s" for s :: "'a st"
    by (simp add: discovering_def shutting_def)
  have tail: "triple (discovering ref)
      (await (checkVmsToShutdown vmsToShutdown us) (\<lambda>_. disrupt R sr)) (\<lambda>_. registered ref)" for us
    by (rule triple_await [OF chk]) (simp_all add: disrupt_registered reg)
  show ?thesis
    by (rule triple_await [OF disc]) (simp_all add: tail reg)
qed

lemma runDeferred_trace:
  "\<exists>es. trace (fold (\<lambda>c s'. snd (rpc R c s')) cs s) = trace s @ es \<and> map fst es = cs"
proof (induction cs arbitrary: s)
  case Nil
  then show ?case by simp
next
  case (Cons c cs)
  have e: "trace (snd (rpc R c s)) = trace s @ [(c, fst (R c (world s)))]"
    by (simp add: rpc_def split: prod.splits)
  from Cons [of "snd (rpc R c s)"] obtain es where
    "trace (fold (\<lambda>c s'. snd (rpc R c s')) cs (snd (rpc R c s))) = trace (snd (rpc R c s)) @ es"
    "map fst es = cs" by blast
  with e show ?case by simp
qed

subsection \<open>The state is written at the two ends of the body\<close>

lemma midquiet_rpc: "\<not> is_write c \<Longrightarrow> preserves (midquiet c0) (rpc R c)"
  by (rule preserves_rpc) (simp add: midquiet_def)

lemma midquiet_handleVbd: "preserves (midquiet c0) (handleVbd R vbd)"
  unfolding preserves_def triple_def handleVbd_def Let_def prog_defs midquiet_def
  by (auto simp: is_write_def split: prod.splits sum.splits if_splits)

lemma midquiet_discoverVms: "preserves (midquiet c0) (discoverVms R sr)"
  unfolding discoverVms_def
  by (intro preserves_await preserves_asyncMap preserves_return midquiet_handleVbd midquiet_rpc)
     (simp_all add: is_write_def)

lemma midquiet_getRunningVmUuids: "preserves (midquiet c0) (getRunningVmUuids R)"
  unfolding getRunningVmUuids_def
  by (rule preserves_dep [where m = "\<lambda>xs. asyncMap _ xs"])
     (intro preserves_await preserves_asyncMap preserves_return midquiet_rpc,
      simp add: is_write_def)

lemma midquiet_shutdownVm: "preserves (midquiet c0) (shutdownVm R x)"
proof -
  obtain r p where x: "x = (r, p)" by (cases x)
  have noted: "preserves (midquiet c0)
      (\<lambda>s. case shutdownVms (state s) of
              None \<Rightarrow> throw TypeError s
            | Some m \<Rightarrow>
                return () (s\<lparr>state := (state s)\<lparr>shutdownVms := Some (AList.update k p m)\<rparr>\<rparr>))" for k
    by (auto simp: preserves_def triple_def throw_def return_def midquiet_def split: option.splits)
  have stop: "preserves (midquiet c0)
      (\<lambda>s. case rpc R (CallAsync ''VM.clean_shutdown'' [AStr r]) s of
              (Inl error, s') \<Rightarrow> rpc R (CallAsync ''VM.hard_shutdown'' [AStr r]) s'
            | (Inr v, s') \<Rightarrow> (Inr v, s'))"
    by (auto simp: preserves_def triple_def rpc_def midquiet_def is_write_def
        split: prod.splits sum.splits)
  have push: "preserves (midquiet c0) (onFailure c)" for c
    by (rule preserves_onFailure) (simp add: midquiet_def)
  show ?thesis
    unfolding shutdownVm_def x prod.case
    by (intro preserves_await midquiet_rpc noted stop push) (simp add: is_write_def)
qed

lemma midquiet_unplugPbd: "preserves (midquiet c0) (unplugPbd R pbd)"
proof -
  have noted: "preserves (midquiet c0)
      (\<lambda>s. case unpluggedPbds (state s) of
              None \<Rightarrow> throw TypeError s
            | Some l \<Rightarrow> return () (s\<lparr>state := (state s)\<lparr>unpluggedPbds := Some (l @ [k])\<rparr>\<rparr>))" for k
    by (auto simp: preserves_def triple_def throw_def return_def midquiet_def split: option.splits)
  have push: "preserves (midquiet c0) (onFailure c)" for c
    by (rule preserves_onFailure) (simp add: midquiet_def)
  have attached: "preserves (midquiet c0)
      (await (rpc R (GetField ''PBD'' pbd ''uuid'')) (\<lambda>u.
       await (\<lambda>s. case unpluggedPbds (state s) of
                     None \<Rightarrow> throw TypeError s
                   | Some l \<Rightarrow>
                       return () (s\<lparr>state := (state s)\<lparr>unpluggedPbds := Some (l @ [str u])\<rparr>\<rparr>)) (\<lambda>_.
       await (rpc R (CallAsync ''PBD.unplug'' [AStr pbd])) (\<lambda>_.
       onFailure (CallAsync ''PBD.plug'' [AStr pbd])))))"
    by (intro preserves_await midquiet_rpc noted push) (simp_all add: is_write_def)
  show ?thesis
    unfolding unplugPbd_def
    by (rule preserves_await [OF midquiet_rpc]) (simp_all add: attached preserves_return is_write_def)
qed

lemma midquiet_shutdownRunningVms: "preserves (midquiet c0) (shutdownRunningVms R)"
proof -
  have init: "preserves (midquiet c0) (\<lambda>s. return () (s\<lparr>state := (state s)\<lparr>shutdownVms := Some []\<rparr>\<rparr>))"
    by (simp add: preserves_def triple_def return_def midquiet_def)
  have each: "preserves (midquiet c0) (\<lambda>s. asyncMapSettled (shutdownVm R) (runningVms s) s)"
    by (rule preserves_dep [where m = "\<lambda>xs. asyncMapSettled _ xs"])
       (intro preserves_asyncMapSettled midquiet_shutdownVm)
  show ?thesis
    unfolding shutdownRunningVms_def
    by (intro preserves_await init each preserves_return)
qed

lemma midquiet_unplugPbds: "preserves (midquiet c0) (unplugPbds R sr)"
proof -
  have init: "preserves (midquiet c0) (\<lambda>s. return () (s\<lparr>state := (state s)\<lparr>unpluggedPbds := Some []\<rparr>\<rparr>))"
    by (simp add: preserves_def triple_def return_def midquiet_def)
  show ?thesis
    unfolding unplugPbds_def
    by (intro preserves_await init preserves_return preserves_asyncMapSettled midquiet_unplugPbd
        midquiet_rpc) (simp add: is_write_def)
qed

lemma persistState_written_last: "triple (midquiet c0) (persistState R ref) (written_last c0 ref)"
  unfolding triple_def persistState_def prog_defs midquiet_def written_last_def
  by (auto split: prod.splits sum.splits)

lemma midquiet_written_last: "midquiet c0 s \<Longrightarrow> written_last c0 ref (Inl e) s"
  by (auto simp: midquiet_def written_last_def dest: in_set_butlastD)

lemma rest_written_last:
  "triple (midquiet c0)
     (await (await (discoverVms R ref) (\<lambda>_. getRunningVmUuids R)) (\<lambda>runningVmUuids.
      await (checkVmsToShutdown vmsToShutdown runningVmUuids) (\<lambda>_. disrupt R ref)))
     (written_last c0 ref)"
proof -
  have disc: "triple (midquiet c0) (await (discoverVms R ref) (\<lambda>_. getRunningVmUuids R)) (\<lambda>_. midquiet c0)"
    using preserves_await [OF midquiet_discoverVms midquiet_getRunningVmUuids]
    by (simp add: preserves_def)
  have chk: "triple (midquiet c0) (checkVmsToShutdown vmsToShutdown us) (\<lambda>_. midquiet c0)" for us
    by (simp add: triple_def checkVmsToShutdown_def)
  have unplug: "triple (midquiet c0) (await (unplugPbds R ref) (\<lambda>_. persistState R ref))
      (written_last c0 ref)"
    by (rule triple_await [OF midquiet_unplugPbds [unfolded preserves_def]])
       (simp_all add: persistState_written_last midquiet_written_last)
  have dis: "triple (midquiet c0) (disrupt R ref) (written_last c0 ref)"
    unfolding disrupt_def
    by (rule triple_await [OF midquiet_shutdownRunningVms [unfolded preserves_def]])
       (simp_all add: unplug midquiet_written_last)
  have tail: "triple (midquiet c0)
      (await (checkVmsToShutdown vmsToShutdown us) (\<lambda>_. disrupt R ref)) (written_last c0 ref)" for us
    by (rule triple_await [OF chk]) (simp_all add: dis midquiet_written_last)
  show ?thesis
    by (rule triple_await [OF disc]) (simp_all add: tail midquiet_written_last)
qed

lemma in_tl_cases: "e \<in> set (tl xs) \<Longrightarrow> e \<in> set (butlast (tl xs)) \<or> e = last xs"
proof -
  assume e: "e \<in> set (tl xs)"
  then have ne: "tl xs \<noteq> []" by auto
  then have "tl xs = butlast (tl xs) @ [last (tl xs)]" by simp
  with e have "e \<in> set (butlast (tl xs) @ [last (tl xs)])" by simp
  moreover from ne have "last (tl xs) = last xs" by (simp add: last_tl)
  ultimately show ?thesis by auto
qed

lemma compensation_writes_nothing: "registered ref s \<Longrightarrow> \<forall>c\<in>set (deferred s). \<not> is_write c"
  by (auto simp: registered_def is_write_def)

subsection \<open>The local state lists the VMs\<close>

lemma update_entries:
  "(k', v') \<in> set (AList.update k v al) \<Longrightarrow> (k', v') = (k, v) \<or> (k', v') \<in> set al"
  by (induction al) (auto split: if_splits)

lemma unlisted_rpc_read: "preserves unlisted (rpc R (GetField t v f))"
  by (intro preserves_rpc) (simp add: unlisted_def)

lemma unlisted_handleVbd: "preserves unlisted (handleVbd R vbd)"
  unfolding preserves_def triple_def handleVbd_def Let_def prog_defs unlisted_def
  by (auto split: prod.splits sum.splits if_splits)

lemma unlisted_discoverVms: "preserves unlisted (discoverVms R sr)"
  unfolding discoverVms_def
  by (intro preserves_await preserves_asyncMap preserves_return unlisted_handleVbd
      unlisted_rpc_read)

lemma unlisted_getRunningVmUuids: "preserves unlisted (getRunningVmUuids R)"
  unfolding getRunningVmUuids_def
  by (rule preserves_dep [where m = "\<lambda>xs. asyncMap _ xs"])
     (intro preserves_await preserves_asyncMap preserves_return unlisted_rpc_read)

lemma unlisted_listed: "unlisted s \<Longrightarrow> listed s"
  by (simp add: unlisted_def listed_def entries_read_def)

lemma uuid_read_append: "uuid_read tr r k \<Longrightarrow> uuid_read (tr @ es) r k"
  by (auto simp: uuid_read_def)

lemma has_entry_events:
  "has_entry r s \<Longrightarrow> has_entry r (s\<lparr>world := w', trace := trace s @ es\<rparr>)"
  unfolding has_entry_def
proof -
  assume "\<exists>m k. shutdownVms (state s) = Some m \<and> uuid_read (trace s) r k \<and> k \<in> fst ` set m"
  then obtain m k where "shutdownVms (state s) = Some m" "uuid_read (trace s) r k"
    "k \<in> fst ` set m" by blast
  then have "shutdownVms (state (s\<lparr>world := w', trace := trace s @ es\<rparr>)) = Some m \<and>
      uuid_read (trace (s\<lparr>world := w', trace := trace s @ es\<rparr>)) r k \<and> k \<in> fst ` set m"
    by (simp add: uuid_read_append)
  then show "\<exists>m k. shutdownVms (state (s\<lparr>world := w', trace := trace s @ es\<rparr>)) = Some m \<and>
      uuid_read (trace (s\<lparr>world := w', trace := trace s @ es\<rparr>)) r k \<and> k \<in> fst ` set m"
    by blast
qed

lemma entries_read_events:
  assumes "entries_read s"
  shows "entries_read (s\<lparr>world := w', trace := trace s @ es\<rparr>)"
  unfolding entries_read_def
proof (intro allI impI ballI)
  fix m x
  assume m: "shutdownVms (state (s\<lparr>world := w', trace := trace s @ es\<rparr>)) = Some m"
    and x: "x \<in> set m"
  obtain k p where kp: "x = (k, p)" by (cases x)
  from m have "shutdownVms (state s) = Some m" by simp
  with assms x kp obtain r where "(r, p) \<in> set (runningVms s)" "uuid_read (trace s) r k"
    by (fastforce simp: entries_read_def)
  then have "(r, p) \<in> set (runningVms (s\<lparr>world := w', trace := trace s @ es\<rparr>)) \<and>
      uuid_read (trace (s\<lparr>world := w', trace := trace s @ es\<rparr>)) r k"
    by (simp add: uuid_read_append)
  then show "case x of (k, p) \<Rightarrow>
      \<exists>r. (r, p) \<in> set (runningVms (s\<lparr>world := w', trace := trace s @ es\<rparr>)) \<and>
          uuid_read (trace (s\<lparr>world := w', trace := trace s @ es\<rparr>)) r k"
    unfolding kp prod.case by blast
qed

lemma listed_events:
  "listed s \<Longrightarrow> shut es = [] \<Longrightarrow> listed (s\<lparr>world := w', trace := trace s @ es\<rparr>)"
  by (simp add: listed_def has_entry_events entries_read_events)

lemma listed_shutdown_events:
  "listed s \<Longrightarrow> has_entry r s \<Longrightarrow> set (shut es) \<subseteq> {r} \<Longrightarrow>
   listed (s\<lparr>world := w', trace := trace s @ es\<rparr>)"
  by (auto simp: listed_def has_entry_events entries_read_events)

lemma listed_rpc: "(\<And>out. shut_of (c, out) = []) \<Longrightarrow> preserves listed (rpc R c)"
  by (rule preserves_rpc) (simp add: listed_events)

lemma listed_locals [simp]:
  "listed (s\<lparr>deferred := d\<rparr>) = listed s"
  "listed (s\<lparr>state := (state s)\<lparr>unpluggedPbds := x\<rparr>\<rparr>) = listed s"
  by (simp_all add: listed_def has_entry_def entries_read_def)

lemma shut_of_shutdown: "x \<in> set (shut_of (CallAsync n [AStr r], out)) \<Longrightarrow> x = r"
  by (cases out) (simp_all split: if_splits)

lemma shut_of_unplug [simp]: "shut_of (CallAsync ''PBD.unplug'' args, out) = []"
  by (cases out) (simp_all add: shut_of_def split: list.splits arg.splits)

lemma listing_noted:
  assumes vm: "(r, p) \<in> set vms"
    and l: "listing vms s"
    and u: "uuid_read (trace s) r k"
    and m: "shutdownVms (state s) = Some m"
  shows "listing vms (s\<lparr>state := (state s)\<lparr>shutdownVms := Some (AList.update k p m)\<rparr>\<rparr>) \<and>
         has_entry r (s\<lparr>state := (state s)\<lparr>shutdownVms := Some (AList.update k p m)\<rparr>\<rparr>)"
proof -
  let ?s = "s\<lparr>state := (state s)\<lparr>shutdownVms := Some (AList.update k p m)\<rparr>\<rparr>"
  have new: "has_entry r ?s"
    unfolding has_entry_def using u by (auto simp: dom_update)
  have old: "has_entry r' ?s" if "has_entry r' s" for r'
    using that m unfolding has_entry_def by (auto simp: dom_update)
  have entries: "entries_read ?s"
    unfolding entries_read_def
  proof (intro allI impI ballI)
    fix m' x
    assume m': "shutdownVms (state ?s) = Some m'" and x: "x \<in> set m'"
    obtain k' p' where kp: "x = (k', p')" by (cases x)
    from m' x kp have "(k', p') \<in> set (AList.update k p m)" by simp
    from update_entries [OF this] have "(k', p') = (k, p) \<or> (k', p') \<in> set m" .
    then have "\<exists>r'. (r', p') \<in> set (runningVms s) \<and> uuid_read (trace s) r' k'"
    proof
      assume "(k', p') = (k, p)"
      with vm l u show ?thesis by (auto simp: listing_def)
    next
      assume "(k', p') \<in> set m"
      with l m show ?thesis by (fastforce simp: listing_def listed_def entries_read_def)
    qed
    then show "case x of (k, p) \<Rightarrow>
        \<exists>r. (r, p) \<in> set (runningVms ?s) \<and> uuid_read (trace ?s) r k"
      unfolding kp prod.case by simp
  qed
  from l old entries have "listing vms ?s"
    by (simp add: listing_def listed_def)
  with new show ?thesis by simp
qed

lemma listing_shutdownVm:
  assumes vm: "(r, p) \<in> set vms"
  shows "preserves (listing vms) (shutdownVm R (r, p))"
proof -
  have read: "triple (listing vms) (rpc R (GetField ''VM'' r ''uuid''))
      (\<lambda>res s. listing vms s \<and>
         (case res of Inr u \<Rightarrow> uuid_read (trace s) r (str u) | Inl _ \<Rightarrow> True))"
    unfolding triple_def rpc_def listing_def
    by (auto simp: listed_events uuid_read_def split: prod.splits sum.splits)
  have noted: "triple (\<lambda>s. listing vms s \<and> uuid_read (trace s) r k)
      (\<lambda>s. case shutdownVms (state s) of
              None \<Rightarrow> throw TypeError s
            | Some m \<Rightarrow>
                return () (s\<lparr>state := (state s)\<lparr>shutdownVms := Some (AList.update k p m)\<rparr>\<rparr>))
      (\<lambda>res s. listing vms s \<and> (case res of Inr _ \<Rightarrow> has_entry r s | Inl _ \<Rightarrow> True))" for k
    unfolding triple_def
    by (auto simp: throw_def return_def split: option.splits dest: listing_noted [OF vm])
  have call: "triple (\<lambda>s. listing vms s \<and> has_entry r s) (rpc R (CallAsync n [AStr r]))
      (\<lambda>_ s. listing vms s \<and> has_entry r s)" for n
    unfolding triple_def rpc_def listing_def
    by (auto simp: has_entry_events split: prod.splits
        intro!: listed_shutdown_events [where r = r] dest: shut_of_shutdown)
  have stop: "triple (\<lambda>s. listing vms s \<and> has_entry r s)
      (\<lambda>s. case rpc R (CallAsync ''VM.clean_shutdown'' [AStr r]) s of
              (Inl error, s') \<Rightarrow> rpc R (CallAsync ''VM.hard_shutdown'' [AStr r]) s'
            | (Inr v, s') \<Rightarrow> (Inr v, s'))
      (\<lambda>_. listing vms)"
    unfolding triple_def
  proof (intro allI impI)
    fix s res s'
    assume pre: "listing vms s \<and> has_entry r s"
      and run: "(case rpc R (CallAsync ''VM.clean_shutdown'' [AStr r]) s of
              (Inl error, s') \<Rightarrow> rpc R (CallAsync ''VM.hard_shutdown'' [AStr r]) s'
            | (Inr v, s') \<Rightarrow> (Inr v, s')) = (res, s')"
    obtain o1 s1 where one: "rpc R (CallAsync ''VM.clean_shutdown'' [AStr r]) s = (o1, s1)"
      by (cases "rpc R (CallAsync ''VM.clean_shutdown'' [AStr r]) s")
    from call [unfolded triple_def, rule_format, OF pre one]
    have mid: "listing vms s1 \<and> has_entry r s1" .
    show "listing vms s'"
    proof (cases o1)
      case (Inl e)
      with run one have "rpc R (CallAsync ''VM.hard_shutdown'' [AStr r]) s1 = (res, s')"
        by simp
      from call [unfolded triple_def, rule_format, OF mid this] show ?thesis by simp
    next
      case (Inr v)
      with run one mid show ?thesis by simp
    qed
  qed
  have push: "triple (listing vms) (onFailure c) (\<lambda>_. listing vms)" for c
    by (simp add: triple_def onFailure_def listing_def)
  have step3: "triple (\<lambda>s. listing vms s \<and> has_entry r s)
      (await (\<lambda>s. case rpc R (CallAsync ''VM.clean_shutdown'' [AStr r]) s of
                     (Inl error, s') \<Rightarrow> rpc R (CallAsync ''VM.hard_shutdown'' [AStr r]) s'
                   | (Inr v, s') \<Rightarrow> (Inr v, s'))
             (\<lambda>_. onFailure (CallAsync ''VM.start'' [AStr r, ABool p, ABool True])))
      (\<lambda>_. listing vms)"
    by (rule triple_await [OF stop]) (simp_all add: push)
  have step2: "triple (\<lambda>s. listing vms s \<and> uuid_read (trace s) r k)
      (await (\<lambda>s. case shutdownVms (state s) of
                     None \<Rightarrow> throw TypeError s
                   | Some m \<Rightarrow>
                       return () (s\<lparr>state := (state s)
                          \<lparr>shutdownVms := Some (AList.update k p m)\<rparr>\<rparr>)) (\<lambda>_.
       await (\<lambda>s. case rpc R (CallAsync ''VM.clean_shutdown'' [AStr r]) s of
                     (Inl error, s') \<Rightarrow> rpc R (CallAsync ''VM.hard_shutdown'' [AStr r]) s'
                   | (Inr v, s') \<Rightarrow> (Inr v, s'))
             (\<lambda>_. onFailure (CallAsync ''VM.start'' [AStr r, ABool p, ABool True]))))
      (\<lambda>_. listing vms)" for k
    by (rule triple_await [OF noted]) (simp_all add: step3)
  show ?thesis
    unfolding shutdownVm_def preserves_def prod.case
    by (rule triple_await [OF read]) (simp_all add: step2)
qed

lemma listed_unplugPbd: "preserves listed (unplugPbd R pbd)"
proof -
  have noted: "preserves listed
      (\<lambda>s. case unpluggedPbds (state s) of
              None \<Rightarrow> throw TypeError s
            | Some l \<Rightarrow> return () (s\<lparr>state := (state s)\<lparr>unpluggedPbds := Some (l @ [k])\<rparr>\<rparr>))" for k
    by (auto simp: preserves_def triple_def throw_def return_def split: option.splits)
  have push: "preserves listed (onFailure c)" for c
    by (rule preserves_onFailure) simp
  have attached: "preserves listed
      (await (rpc R (GetField ''PBD'' pbd ''uuid'')) (\<lambda>u.
       await (\<lambda>s. case unpluggedPbds (state s) of
                     None \<Rightarrow> throw TypeError s
                   | Some l \<Rightarrow>
                       return () (s\<lparr>state := (state s)\<lparr>unpluggedPbds := Some (l @ [str u])\<rparr>\<rparr>)) (\<lambda>_.
       await (rpc R (CallAsync ''PBD.unplug'' [AStr pbd])) (\<lambda>_.
       onFailure (CallAsync ''PBD.plug'' [AStr pbd])))))"
    by (intro preserves_await listed_rpc noted push) simp_all
  show ?thesis
    unfolding unplugPbd_def
    by (rule preserves_await [OF listed_rpc]) (simp_all add: attached preserves_return)
qed

lemma shutdownRunningVms_listed:
  "triple unlisted (shutdownRunningVms R) (\<lambda>_. listed)"
  unfolding triple_def
proof (intro allI impI)
  fix s r s'
  assume d: "unlisted s" and run: "shutdownRunningVms R s = (r, s')"
  define s1 where "s1 = s\<lparr>state := (state s)\<lparr>shutdownVms := Some []\<rparr>\<rparr>"
  have s1: "listing (runningVms s) s1"
    using d by (simp add: s1_def unlisted_def listed_def listing_def has_entry_def entries_read_def)
  have "preserves (listing (runningVms s)) (asyncMapSettled (shutdownVm R) (runningVms s))"
    by (rule preserves_asyncMapSettled) (auto intro: listing_shutdownVm)
  moreover obtain r1 where "asyncMapSettled (shutdownVm R) (runningVms s) s1 = (r1, s')"
    using run
    by (auto simp: shutdownRunningVms_def await_def return_def s1_def split: prod.splits sum.splits)
  ultimately have "listing (runningVms s) s'"
    using s1 by (auto simp: preserves_def triple_def)
  then show "listed s'" by (simp add: listing_def)
qed

lemma listed_unplugPbds: "preserves listed (unplugPbds R sr)"
proof -
  have init: "preserves listed
      (\<lambda>s. return () (s\<lparr>state := (state s)\<lparr>unpluggedPbds := Some []\<rparr>\<rparr>))"
    by (simp add: preserves_def triple_def return_def)
  have read: "preserves listed (rpc R (GetField ''SR'' sr ''PBDs''))"
    by (rule listed_rpc) simp
  show ?thesis
    unfolding unplugPbds_def
    by (intro preserves_await init read preserves_asyncMapSettled listed_unplugPbd
        preserves_return)
qed

lemma listed_persistState: "preserves listed (persistState R sr)"
proof -
  have store: "preserves listed
      (\<lambda>s. rpc R (SetFieldEntry ''SR'' sr ''other_config'' OC_MAINTENANCE (AJson (state s))) s)"
    by (rule preserves_dep
          [where m = "\<lambda>x. rpc R (SetFieldEntry ''SR'' sr ''other_config'' OC_MAINTENANCE (AJson x))"
             and g = state])
       (rule listed_rpc, simp)
  show ?thesis
    unfolding persistState_def
    by (intro preserves_await store preserves_return)
qed

lemma rest_listed:
  "triple unlisted
     (await (await (discoverVms R sr) (\<lambda>_. getRunningVmUuids R)) (\<lambda>runningVmUuids.
      await (checkVmsToShutdown vmsToShutdown runningVmUuids) (\<lambda>_. disrupt R sr)))
     (\<lambda>_. listed)"
proof -
  have disc: "triple unlisted (await (discoverVms R sr) (\<lambda>_. getRunningVmUuids R))
      (\<lambda>_. unlisted)"
    using preserves_await [OF unlisted_discoverVms unlisted_getRunningVmUuids]
    by (simp add: preserves_def)
  have chk: "triple unlisted (checkVmsToShutdown vmsToShutdown us) (\<lambda>_. unlisted)"
    for us
    by (simp add: triple_def checkVmsToShutdown_def)
  have unplug: "triple listed (await (unplugPbds R sr) (\<lambda>_. persistState R sr)) (\<lambda>_. listed)"
    using preserves_await [OF listed_unplugPbds listed_persistState]
    by (simp add: preserves_def)
  have dis: "triple unlisted (disrupt R sr) (\<lambda>_. listed)"
    unfolding disrupt_def
    by (rule triple_await [OF shutdownRunningVms_listed]) (simp_all add: unplug)
  have tail: "triple unlisted
      (await (checkVmsToShutdown vmsToShutdown us) (\<lambda>_. disrupt R sr)) (\<lambda>_. listed)" for us
    by (rule triple_await [OF chk]) (simp_all add: dis unlisted_listed)
  show ?thesis
    by (rule triple_await [OF disc]) (simp_all add: tail unlisted_listed)
qed

subsection \<open>Runs on the small pool\<close>

lemmas run_defs = enableMaintenanceMode_body_def
  discovery_def writePlaceholder_def discoverVms_def getRunningVmUuids_def handleVbd_def
  checkVmsToShutdown_def disrupt_def shutdownRunningVms_def shutdownVm_def unplugPbds_def
  unplugPbd_def persistState_def prog_defs start_def OC_MAINTENANCE_def Let_def
  pool_remote_def answer_def pool0_def pool1_def noreply_def reply_str_def reply_strs_def
  reply_flag_def placeholder7_def complete7_def events20_def

lemma pool0_body:
  "enableMaintenanceMode_body pool_remote 7 ''sr'' [''uuidA'', ''uuidB''] (start pool0) =
     (Inl (Failure ''HANDLE_INVALID''), pool0_failed)"
  by (simp add: run_defs pool0_failed_def)

lemma pool1_body:
  "enableMaintenanceMode_body pool_remote 7 ''sr'' [''uuidA'', ''uuidB'', ''not-a-vm'']
     (start pool1) = (Inr (), pool1_done)"
  by (simp add: run_defs pool1_done_def)

lemma pool1_discovery:
  "discovery pool_remote 7 ''sr'' (start pool1) = (Inr [''uuidA'', ''uuidB''], pool1_discovered)"
  by (simp add: run_defs pool1_discovered_def)

lemma pool0_add:
  "pool_remote (Call ''SR.add_to_other_config''
       [AStr ''sr'', AStr OC_MAINTENANCE,
        AJson \<lparr>timestamp = 7, shutdownVms = None, unpluggedPbds = None\<rparr>]) pool0 =
     (Inr noreply, pool0\<lparr>other_config := [(''xo:maintenanceState'', placeholder7)]\<rparr>)"
  by (simp add: pool_remote_def pool0_def OC_MAINTENANCE_def placeholder7_def)

lemma pool0_enable:
  "enableMaintenanceMode pool_remote 7 ''sr'' [''uuidA'', ''uuidB''] pool0 =
     (Inl (Failure ''HANDLE_INVALID''),
      pool0_failed\<lparr>world := pool0,
        trace := trace pool0_failed @
          [(CallAsync ''PBD.plug'' [AStr ''pbd1''], Inr noreply),
           (CallAsync ''VM.start'' [AStr ''vmB'', ABool True, ABool True],
            Inl (Failure ''HANDLE_INVALID'')),
           (CallAsync ''VM.start'' [AStr ''vmA'', ABool False, ABool True], Inr noreply),
           (Call ''SR.remove_from_other_config'' [AStr ''sr'', AStr ''xo:maintenanceState''],
            Inr noreply)]\<rparr>)"
  by (simp only: enableMaintenanceMode_def defer_decorator_def pool0_body)
     (simp add: runDeferred_def pool0_failed_def rpc_def pool_remote_def answer_def pool0_def
      noreply_def reply_str_def reply_strs_def reply_flag_def)

subsection \<open>Claims about \<^verbatim>\<open>enableMaintenanceMode\<close>\<close>

text \<open>
  Claim C1 as it is stated fails in one direction. On \<open>pool1\<close> discovery finds the VMs
  \<^verbatim>\<open>uuidA\<close> and \<^verbatim>\<open>uuidB\<close>; \<^verbatim>\<open>vmsToShutdown\<close> lists a third uuid that is no discovered
  VM, and the call succeeds.
\<close>

theorem extra_uuid_accepted:
  "fst (discovery pool_remote 7 ''sr'' (start pool1)) = Inr [''uuidA'', ''uuidB''] \<and>
   ''not-a-vm'' \<in> set [''uuidA'', ''uuidB'', ''not-a-vm''] \<and>
   ''not-a-vm'' \<notin> set [''uuidA'', ''uuidB''] \<and>
   fst (enableMaintenanceMode pool_remote 7 ''sr'' [''uuidA'', ''uuidB'', ''not-a-vm''] pool1)
     = Inr ()"
  by (simp add: pool1_discovery enableMaintenanceMode_def defer_decorator_def pool1_body)

text \<open>
  C1, amended. Let discovery find the running or paused VMs with uuids
  \<open>runningVmUuids\<close>. If one of them is missing from \<open>vmsToShutdown\<close>, the call fails with
  \<^verbatim>\<open>IncorrectState\<close> carrying \<open>vmsToShutdown\<close> as actual and \<open>runningVmUuids\<close> as expected,
  and the whole trace, compensation included, holds no \<^verbatim>\<open>callAsync\<close>: no VM is shut down
  and no PBD is unplugged. If every discovered uuid is listed, the check passes, whatever
  else \<open>vmsToShutdown\<close> lists, and the call goes on to the shutdowns.
\<close>

theorem check_before_disruption:
  assumes "discovery R now ref (start w) = (Inr runningVmUuids, s)"
  shows "(\<not> set runningVmUuids \<subseteq> set vmsToShutdown \<longrightarrow>
            fst (enableMaintenanceMode R now ref vmsToShutdown w) =
              Inl (IncorrectState vmsToShutdown runningVmUuids ''vmsToShutdown'') \<and>
            (\<forall>e\<in>set (trace (snd (enableMaintenanceMode R now ref vmsToShutdown w))).
               \<not> async (fst e))) \<and>
         (set runningVmUuids \<subseteq> set vmsToShutdown \<longrightarrow>
            enableMaintenanceMode R now ref vmsToShutdown w = defer_decorator R (disrupt R ref) s)"
proof -
  have "quiet (start w)" by (simp add: quiet_def start_def)
  with quiet_discovery [of R now ref] assms have q: "quiet s"
    by (auto simp: preserves_def triple_def)
  show ?thesis
    using assms quiet_runDeferred [OF q, of R]
    by (simp add: enableMaintenanceMode_def defer_decorator_def enableMaintenanceMode_body_def
        await_def checkVmsToShutdown_def checkLoop_eq quiet_def)
qed

theorem check_before_disruption_witness:
  "fst (enableMaintenanceMode pool_remote 7 ''sr'' [''uuidA''] pool1) =
     Inl (IncorrectState [''uuidA''] [''uuidA'', ''uuidB''] ''vmsToShutdown'')"
  using check_before_disruption [OF pool1_discovery, of "[''uuidA'']"]
  by simp

text \<open>
  C2. Let the placeholder be written and let the body end with result \<open>r\<close> in state \<open>s\<close>.
  If the body succeeded, the decorated call returns the same and makes no further call. If
  the body failed with \<open>e\<close>, the decorated call fails with \<open>e\<close>, its trace starts with the
  trace of the body, and the calls that follow are exactly the compensation of that trace:
  plug each PBD whose unplug succeeded, latest first, start each VM whose shutdown
  succeeded, latest first, with the pause flag read at discovery, remove the key. The
  outcomes of these calls are arbitrary: a compensating call that fails does not stop the
  ones after it.
\<close>

theorem compensation_in_reverse_order:
  assumes placeholder:
      "R (Call ''SR.add_to_other_config''
            [AStr ref, AStr OC_MAINTENANCE,
             AJson \<lparr>timestamp = now, shutdownVms = None, unpluggedPbds = None\<rparr>]) w = (Inr x, w1)"
    and body: "enableMaintenanceMode_body R now ref vmsToShutdown (start w) = (r, s)"
  shows "(r = Inr () \<longrightarrow> enableMaintenanceMode R now ref vmsToShutdown w = (Inr (), s)) \<and>
         (\<forall>e. r = Inl e \<longrightarrow>
            fst (enableMaintenanceMode R now ref vmsToShutdown w) = Inl e \<and>
            take (length (trace s)) (trace (snd (enableMaintenanceMode R now ref vmsToShutdown w)))
              = trace s \<and>
            map fst (drop (length (trace s))
                       (trace (snd (enableMaintenanceMode R now ref vmsToShutdown w))))
              = compensation ref (trace s))"
proof -
  define s1 where "s1 = (start w)
      \<lparr>state := \<lparr>timestamp = now, shutdownVms = None, unpluggedPbds = None\<rparr>,
        world := w1,
        trace := [(Call ''SR.add_to_other_config''
                     [AStr ref, AStr OC_MAINTENANCE,
                      AJson \<lparr>timestamp = now, shutdownVms = None, unpluggedPbds = None\<rparr>], Inr x)],
        deferred := [Call ''SR.remove_from_other_config'' [AStr ref, AStr OC_MAINTENANCE]]\<rparr>"
  have wp: "writePlaceholder R now ref (start w) = (Inr (), s1)"
    using placeholder by (simp add: writePlaceholder_def prog_defs start_def s1_def)
  have d1: "discovering ref s1"
    by (simp add: s1_def start_def discovering_def shutting_def registered_def)
  have "enableMaintenanceMode_body R now ref vmsToShutdown (start w) =
      await (await (discoverVms R ref) (\<lambda>_. getRunningVmUuids R)) (\<lambda>runningVmUuids.
      await (checkVmsToShutdown vmsToShutdown runningVmUuids) (\<lambda>_. disrupt R ref)) s1"
    using wp by (simp add: enableMaintenanceMode_body_def discovery_def await_def)
  with body have "await (await (discoverVms R ref) (\<lambda>_. getRunningVmUuids R)) (\<lambda>runningVmUuids.
      await (checkVmsToShutdown vmsToShutdown runningVmUuids) (\<lambda>_. disrupt R ref)) s1 = (r, s)"
    by simp
  from rest_registered [unfolded triple_def, rule_format, OF d1 this]
  have reg: "registered ref s" .
  then have comp: "rev (deferred s) = compensation ref (trace s)"
    by (simp add: registered_def compensation_def rev_map)
  obtain es where es: "trace (runDeferred R s) = trace s @ es" "map fst es = rev (deferred s)"
    using runDeferred_trace [of R "rev (deferred s)" s] by (auto simp: runDeferred_def)
  show ?thesis
    using body es comp
    by (cases r) (simp_all add: enableMaintenanceMode_def defer_decorator_def)
qed

theorem compensation_in_reverse_order_witness:
  "fst (enableMaintenanceMode pool_remote 7 ''sr'' [''uuidA'', ''uuidB''] pool0) =
     Inl (Failure ''HANDLE_INVALID'') \<and>
   map fst (drop 21 (trace (snd (enableMaintenanceMode pool_remote 7 ''sr''
       [''uuidA'', ''uuidB''] pool0)))) =
     [CallAsync ''PBD.plug'' [AStr ''pbd1''],
      CallAsync ''VM.start'' [AStr ''vmB'', ABool True, ABool True],
      CallAsync ''VM.start'' [AStr ''vmA'', ABool False, ABool True],
      Call ''SR.remove_from_other_config'' [AStr ''sr'', AStr ''xo:maintenanceState'']]"
proof -
  have len: "length (trace pool0_failed) = 21"
    by (simp add: pool0_failed_def events20_def)
  have comp: "compensation ''sr'' (trace pool0_failed) =
      [CallAsync ''PBD.plug'' [AStr ''pbd1''],
       CallAsync ''VM.start'' [AStr ''vmB'', ABool True, ABool True],
       CallAsync ''VM.start'' [AStr ''vmA'', ABool False, ABool True],
       Call ''SR.remove_from_other_config'' [AStr ''sr'', AStr ''xo:maintenanceState'']]"
    by (simp add: compensation_def pool0_failed_def events20_def reply_str_def reply_strs_def
        reply_flag_def noreply_def OC_MAINTENANCE_def)
  from compensation_in_reverse_order [OF pool0_add pool0_body, unfolded len comp]
  show ?thesis by simp
qed

text \<open>
  C6. If the add-if-absent write of the placeholder fails, as the remote makes it fail when
  the key is set, \<^verbatim>\<open>enableMaintenanceMode\<close> fails with that error, the write is the only
  call in the trace (no power state is read, nothing is shut down or unplugged), nothing was
  registered with \<^verbatim>\<open>$defer\<close> so nothing is undone and the key stays, and the world is as
  the failed write left it.
\<close>

theorem enable_conflict_touches_nothing:
  assumes "R (Call ''SR.add_to_other_config''
               [AStr ref, AStr OC_MAINTENANCE,
                AJson \<lparr>timestamp = now, shutdownVms = None, unpluggedPbds = None\<rparr>]) w = (Inl e, w')"
  shows "fst (enableMaintenanceMode R now ref vmsToShutdown w) = Inl e \<and>
         trace (snd (enableMaintenanceMode R now ref vmsToShutdown w)) =
           [(Call ''SR.add_to_other_config''
               [AStr ref, AStr OC_MAINTENANCE,
                AJson \<lparr>timestamp = now, shutdownVms = None, unpluggedPbds = None\<rparr>], Inl e)] \<and>
         world (snd (enableMaintenanceMode R now ref vmsToShutdown w)) = w' \<and>
         deferred (snd (enableMaintenanceMode R now ref vmsToShutdown w)) = []"
  using assms
  by (simp add: enableMaintenanceMode_def defer_decorator_def enableMaintenanceMode_body_def
      discovery_def writePlaceholder_def prog_defs start_def runDeferred_def)

theorem enable_conflict_touches_nothing_witness:
  "fst (enableMaintenanceMode pool_remote 7 ''sr'' [] pool_in_maintenance) = Inl Conflict \<and>
   map fst (trace (snd (enableMaintenanceMode pool_remote 7 ''sr'' [] pool_in_maintenance))) =
     [Call ''SR.add_to_other_config'' [AStr ''sr'', AStr ''xo:maintenanceState'', AJson placeholder7]] \<and>
   world (snd (enableMaintenanceMode pool_remote 7 ''sr'' [] pool_in_maintenance)) =
     pool_in_maintenance"
  using enable_conflict_touches_nothing [of pool_remote "''sr''" 7 pool_in_maintenance Conflict
      pool_in_maintenance "[]"]
  by (simp add: pool_remote_def pool_in_maintenance_def OC_MAINTENANCE_def placeholder7_def)

text \<open>
  Claim C8 as it is stated fails. On \<open>pool0\<close> both VMs are shut down one after the other
  with no write of the state in between, the call then fails at the second unplug, and what
  is left on the SR is no partial record: the key is gone.
\<close>

theorem not_persisted_as_completed:
  "\<not> persisted_as_completed
       (trace (snd (enableMaintenanceMode pool_remote 7 ''sr'' [''uuidA'', ''uuidB''] pool0))) \<and>
   other_config (world (snd (enableMaintenanceMode pool_remote 7 ''sr'' [''uuidA'', ''uuidB'']
       pool0))) = []"
  by (simp only: pool0_enable)
     (simp add: pool0_failed_def events20_def is_write_def shutdown_call_def pool0_def)

text \<open>
  C8, amended. Let the body of \<^verbatim>\<open>enableMaintenanceMode\<close> end with result \<open>r\<close> in state
  \<open>s\<close>. Its first call is the add-if-absent write of the placeholder. No call strictly
  between the first and the last call of the body stores a maintenance state on the SR, and
  when the body succeeds its last call is the \<^verbatim>\<open>setFieldEntry\<close> that stores the whole local
  state: the state is stored in one batch, after every shutdown and unplug, not as each
  shutdown completes. Until then the entries are collected in the local state only: every
  VM that has been shut down has an entry there under a uuid read for it, and every entry
  is keyed by a uuid read for a discovered VM and holds the pause flag discovered for that
  VM. The trace of the decorated call is the trace of the body followed, if the body
  failed, by the compensating calls, none of which stores a maintenance state. So when the
  last call of the body is no such write, as when the body fails between two shutdowns, no
  call of the whole request after the first one stores a maintenance state: the entries of
  the VMs already shut down are never sent to the SR.
\<close>

theorem state_written_once_at_the_end:
  assumes "enableMaintenanceMode_body R now ref vmsToShutdown (start w) = (r, s)"
  shows "trace s \<noteq> [] \<and>
         fst (hd (trace s)) =
           Call ''SR.add_to_other_config''
             [AStr ref, AStr OC_MAINTENANCE,
              AJson \<lparr>timestamp = now, shutdownVms = None, unpluggedPbds = None\<rparr>] \<and>
         (\<forall>e\<in>set (butlast (tl (trace s))). \<not> is_write (fst e)) \<and>
         (r = Inr () \<longrightarrow>
            (\<exists>x. last (trace s) =
               (SetFieldEntry ''SR'' ref ''other_config'' OC_MAINTENANCE (AJson (state s)), Inr x))) \<and>
         listed s \<and>
         take (length (trace s)) (trace (snd (enableMaintenanceMode R now ref vmsToShutdown w)))
           = trace s \<and>
         (\<forall>e\<in>set (drop (length (trace s))
                     (trace (snd (enableMaintenanceMode R now ref vmsToShutdown w)))).
            \<not> is_write (fst e)) \<and>
         (\<not> is_write (fst (last (trace s))) \<longrightarrow>
            (\<forall>e\<in>set (tl (trace (snd (enableMaintenanceMode R now ref vmsToShutdown w)))).
               \<not> is_write (fst e)))"
proof -
  define c0 where "c0 = Call ''SR.add_to_other_config''
      [AStr ref, AStr OC_MAINTENANCE,
       AJson \<lparr>timestamp = now, shutdownVms = None, unpluggedPbds = None\<rparr>]"
  obtain o1 w1 where add: "R c0 w = (o1, w1)"
    by (cases "R c0 w")
  have body: "written_last c0 ref r s \<and> listed s \<and> (\<forall>c\<in>set (deferred s). \<not> is_write c)"
  proof (cases o1)
    case (Inl e)
    with add assms show ?thesis
      unfolding c0_def
      by (auto simp: enableMaintenanceMode_body_def discovery_def writePlaceholder_def prog_defs
          start_def listed_def entries_read_def written_last_def)
  next
    case (Inr x)
    define s1 where "s1 = (start w)
        \<lparr>state := \<lparr>timestamp = now, shutdownVms = None, unpluggedPbds = None\<rparr>,
          world := w1,
          trace := [(c0, Inr x)],
          deferred := [Call ''SR.remove_from_other_config'' [AStr ref, AStr OC_MAINTENANCE]]\<rparr>"
    have wp: "writePlaceholder R now ref (start w) = (Inr (), s1)"
      using add Inr by (simp add: writePlaceholder_def prog_defs start_def s1_def c0_def)
    have q1: "midquiet c0 s1"
      by (simp add: s1_def midquiet_def)
    have d1: "discovering ref s1"
      by (simp add: s1_def start_def discovering_def shutting_def registered_def c0_def)
    have u1: "unlisted s1"
      by (simp add: s1_def unlisted_def c0_def)
    have "enableMaintenanceMode_body R now ref vmsToShutdown (start w) =
        await (await (discoverVms R ref) (\<lambda>_. getRunningVmUuids R)) (\<lambda>runningVmUuids.
        await (checkVmsToShutdown vmsToShutdown runningVmUuids) (\<lambda>_. disrupt R ref)) s1"
      using wp by (simp add: enableMaintenanceMode_body_def discovery_def await_def)
    with assms have rest: "await (await (discoverVms R ref) (\<lambda>_. getRunningVmUuids R))
        (\<lambda>runningVmUuids.
        await (checkVmsToShutdown vmsToShutdown runningVmUuids) (\<lambda>_. disrupt R ref)) s1 = (r, s)"
      by simp
    from rest_written_last [unfolded triple_def, rule_format, OF q1 rest]
      rest_listed [unfolded triple_def, rule_format, OF u1 rest]
      compensation_writes_nothing [OF rest_registered [unfolded triple_def, rule_format, OF d1 rest]]
    show ?thesis by simp
  qed
  obtain es where es: "trace (runDeferred R s) = trace s @ es" "map fst es = rev (deferred s)"
    using runDeferred_trace [of R "rev (deferred s)" s] by (auto simp: runDeferred_def)
  have "set (map fst es) = set (deferred s)"
    using es(2) by simp
  with body have quiet_es: "\<forall>e\<in>set es. \<not> is_write (fst e)"
    by auto
  have "trace (snd (enableMaintenanceMode R now ref vmsToShutdown w)) = trace s \<or>
      trace (snd (enableMaintenanceMode R now ref vmsToShutdown w)) = trace s @ es"
    using assms es(1) by (cases r) (simp_all add: enableMaintenanceMode_def defer_decorator_def)
  then have fin: "take (length (trace s))
        (trace (snd (enableMaintenanceMode R now ref vmsToShutdown w))) = trace s"
    and comp: "drop (length (trace s))
        (trace (snd (enableMaintenanceMode R now ref vmsToShutdown w))) = [] \<or>
      drop (length (trace s))
        (trace (snd (enableMaintenanceMode R now ref vmsToShutdown w))) = es"
    by auto
  from body have ne: "trace s \<noteq> []"
    and mid: "\<forall>e\<in>set (butlast (tl (trace s))). \<not> is_write (fst e)"
    by (simp_all add: written_last_def)
  have rest: "\<forall>e\<in>set (tl (trace (snd (enableMaintenanceMode R now ref vmsToShutdown w)))).
      \<not> is_write (fst e)" if last: "\<not> is_write (fst (last (trace s)))"
  proof
    fix e
    assume "e \<in> set (tl (trace (snd (enableMaintenanceMode R now ref vmsToShutdown w))))"
    then have "e \<in> set (tl (take (length (trace s))
          (trace (snd (enableMaintenanceMode R now ref vmsToShutdown w))) @
        drop (length (trace s)) (trace (snd (enableMaintenanceMode R now ref vmsToShutdown w)))))"
      by simp
    with fin ne have "e \<in> set (tl (trace s)) \<or>
        e \<in> set (drop (length (trace s))
          (trace (snd (enableMaintenanceMode R now ref vmsToShutdown w))))"
      by (simp only: tl_append2) auto
    then show "\<not> is_write (fst e)"
    proof
      assume "e \<in> set (tl (trace s))"
      from in_tl_cases [OF this] mid last show ?thesis by auto
    next
      assume "e \<in> set (drop (length (trace s))
          (trace (snd (enableMaintenanceMode R now ref vmsToShutdown w))))"
      with comp quiet_es show ?thesis by auto
    qed
  qed
  from comp quiet_es have quiet_comp: "\<forall>e\<in>set (drop (length (trace s))
      (trace (snd (enableMaintenanceMode R now ref vmsToShutdown w)))). \<not> is_write (fst e)"
    by auto
  from body have "trace s \<noteq> [] \<and> fst (hd (trace s)) = c0 \<and>
      (\<forall>e\<in>set (butlast (tl (trace s))). \<not> is_write (fst e)) \<and>
      (r = Inr () \<longrightarrow>
         (\<exists>x. last (trace s) =
            (SetFieldEntry ''SR'' ref ''other_config'' OC_MAINTENANCE (AJson (state s)), Inr x))) \<and>
      listed s"
    by (simp add: written_last_def)
  with fin quiet_comp rest show ?thesis
    unfolding c0_def by blast
qed

theorem state_written_once_at_the_end_witness:
  "fst (enableMaintenanceMode_body pool_remote 7 ''sr'' [''uuidA'', ''uuidB'', ''not-a-vm'']
       (start pool1)) = Inr () \<and>
   fst (hd (trace (snd (enableMaintenanceMode_body pool_remote 7 ''sr''
       [''uuidA'', ''uuidB'', ''not-a-vm''] (start pool1))))) =
     Call ''SR.add_to_other_config'' [AStr ''sr'', AStr OC_MAINTENANCE, AJson placeholder7] \<and>
   last (trace (snd (enableMaintenanceMode_body pool_remote 7 ''sr''
       [''uuidA'', ''uuidB'', ''not-a-vm''] (start pool1)))) =
     (SetFieldEntry ''SR'' ''sr'' ''other_config'' OC_MAINTENANCE (AJson complete7), Inr noreply) \<and>
   shut (trace (snd (enableMaintenanceMode_body pool_remote 7 ''sr''
       [''uuidA'', ''uuidB'', ''not-a-vm''] (start pool1)))) = [''vmA'', ''vmB''] \<and>
   shutdownVms complete7 = Some [(''uuidA'', False), (''uuidB'', True)] \<and>
   trace (snd (enableMaintenanceMode pool_remote 7 ''sr'' [''uuidA'', ''uuidB'', ''not-a-vm'']
       pool1)) =
     trace (snd (enableMaintenanceMode_body pool_remote 7 ''sr''
       [''uuidA'', ''uuidB'', ''not-a-vm''] (start pool1))) \<and>
   fst (enableMaintenanceMode_body pool_remote 7 ''sr'' [''uuidA'', ''uuidB''] (start pool0)) =
     Inl (Failure ''HANDLE_INVALID'') \<and>
   filter (\<lambda>e. is_write (fst e))
     (tl (trace (snd (enableMaintenanceMode pool_remote 7 ''sr'' [''uuidA'', ''uuidB''] pool0))))
     = []"
proof -
  have last0: "\<not> is_write (fst (last (trace pool0_failed)))"
    by (simp add: pool0_failed_def is_write_def)
  from state_written_once_at_the_end [OF pool0_body] last0
  have "\<forall>e\<in>set (tl (trace (snd (enableMaintenanceMode pool_remote 7 ''sr'' [''uuidA'', ''uuidB'']
        pool0)))). \<not> is_write (fst e)"
    by blast
  then have "filter (\<lambda>e. is_write (fst e))
      (tl (trace (snd (enableMaintenanceMode pool_remote 7 ''sr'' [''uuidA'', ''uuidB''] pool0))))
      = []"
    by (simp only: filter_empty_conv)
  with state_written_once_at_the_end [OF pool1_body] show ?thesis
    by (simp add: pool1_body pool0_body pool1_done_def OC_MAINTENANCE_def events20_def
        complete7_def placeholder7_def enableMaintenanceMode_def defer_decorator_def)
qed

subsection \<open>Claims about \<^verbatim>\<open>disableMaintenanceMode\<close>\<close>

text \<open>
  A run of \<^verbatim>\<open>disableMaintenanceMode\<close> on a complete state, with the callbacks in the order
  of the lists. The key is removed first; every recorded PBD and every recorded VM is
  attempted, although the second PBD is not found and the first VM does not start; the call
  throws the aggregate of these two errors, and the key is gone.
\<close>

lemma disable_on_complete_state:
  "fst (disableMaintenanceMode pool_remote ''sr'' pool_restorable) =
     Inl (AggregateError [Failure ''HANDLE_INVALID'', Failure ''HANDLE_INVALID'']) \<and>
   map fst (trace (snd (disableMaintenanceMode pool_remote ''sr'' pool_restorable))) =
     [GetField ''SR'' ''sr'' ''other_config'',
      Call ''SR.remove_from_other_config'' [AStr ''sr'', AStr ''xo:maintenanceState''],
      Call ''PBD.get_by_uuid'' [AStr ''uuidP''], CallAsync ''PBD.plug'' [AStr ''pbd1''],
      Call ''PBD.get_by_uuid'' [AStr ''uuidQ''],
      Call ''VM.get_by_uuid'' [AStr ''uuidA''],
      CallAsync ''VM.start'' [AStr ''vmA'', ABool False, ABool True],
      Call ''VM.get_by_uuid'' [AStr ''uuidB''],
      CallAsync ''VM.start'' [AStr ''vmB'', ABool True, ABool True]] \<and>
   other_config (world (snd (disableMaintenanceMode pool_remote ''sr'' pool_restorable))) = []"
  by (simp add: disableMaintenanceMode_def disableMaintenanceMode_body_def prog_defs start_def
      plugPbd_def startVm_def pool_remote_def answer_def pool_restorable_def complete7_def
      OC_MAINTENANCE_def noreply_def reply_str_def)

text \<open>
  C3. \<^verbatim>\<open>disableMaintenanceMode\<close> is to remove the key first, attempt every recorded item,
  throw an aggregate exactly when an item failed and return normally otherwise. The code
  breaks this on an SR whose maintenance state is still the placeholder
  \<^verbatim>\<open>{ timestamp }\<close>. \<^verbatim>\<open>enableMaintenanceMode\<close> writes the placeholder first; it stays on
  the SR when the call fails and the compensating removal fails too, as on the remote that
  loses one removal, where the call fails during discovery. \<^verbatim>\<open>disableMaintenanceMode\<close>
  then reads the placeholder and removes the key, but goes on to
  \<^verbatim>\<open>asyncMap(state.unpluggedPbds, ...)\<close> with no list to iterate: it throws a
  \<^verbatim>\<open>TypeError\<close> although no item failed and no error was collected, and the key is gone.
\<close>

theorem disable_on_placeholder:
  "fst (enableMaintenanceMode flaky_remote 7 ''sr'' [] (pool_blank, True)) =
     Inl (Failure ''HANDLE_INVALID'') \<and>
   world (snd (enableMaintenanceMode flaky_remote 7 ''sr'' [] (pool_blank, True))) =
     (pool_placeholder, False) \<and>
   fst (disableMaintenanceMode flaky_remote ''sr'' (pool_placeholder, False)) = Inl TypeError \<and>
   trace (snd (disableMaintenanceMode flaky_remote ''sr'' (pool_placeholder, False))) =
     [(GetField ''SR'' ''sr'' ''other_config'',
       Inr (noreply\<lparr>config := [(''xo:maintenanceState'', placeholder7)]\<rparr>)),
      (Call ''SR.remove_from_other_config'' [AStr ''sr'', AStr ''xo:maintenanceState''],
       Inr noreply)] \<and>
   errors (snd (disableMaintenanceMode flaky_remote ''sr'' (pool_placeholder, False))) = [] \<and>
   world (snd (disableMaintenanceMode flaky_remote ''sr'' (pool_placeholder, False))) =
     (pool_blank, False)"
  by (simp add: enableMaintenanceMode_def defer_decorator_def runDeferred_def run_defs
      disableMaintenanceMode_def disableMaintenanceMode_body_def flaky_remote_def pool_blank_def
      pool_placeholder_def)

subsection \<open>Claims about \<^verbatim>\<open>importVdi\<close>\<close>



end
